theory Spec2Isabelle
  imports
    Main
    "HOL-Library.Word"
    "HOL-Library.List_Lexorder"
    "HOL-Library.Char_ord"
    "HOL-Library.Sublist"
    "HOL-Library.Multiset"
begin

chapter \<open>Feedora: scheduling, feed update, classification and cache clean-up\<close>

text \<open>
  A shallow embedding of the Go sources of Feedora. Go strings are byte strings and are
  compared bytewise; they are modelled as \<^typ>\<open>string\<close> with the lexicographic
  order of \<^theory_text>\<open>List_Lexorder\<close> over the byte order of \<^theory_text>\<open>Char_ord\<close>.
  Go maps are partial functions, slices are lists, nil pointers are \<^const>\<open>None\<close>.
  Everything the code obtains from outside the process (the clock, the feed parser, the
  language model, the shell, the JSON and URL libraries) is an explicit argument.
\<close>

section \<open>Interval policy\<close>

text \<open>
  \<^verbatim>\<open>models.FetchSchedule\<close>. The two counts are Go \<^verbatim>\<open>int\<close>s that are multiplied, so
  they are 64-bit words: \<open>*\<close> wraps as Go's does and \<open><s\<close> is the signed comparison.
\<close>

record FetchSchedule =
  StartTime :: string
  EndTime :: string
  BaseRefresh :: "64 word"
  DefaultCount :: "64 word"

text \<open>
  The body of the loop of \<^verbatim>\<open>getEffectiveInterval\<close> up to the test of \<^verbatim>\<open>match\<close>: the
  \<^verbatim>\<open>continue\<close> for a rule with an empty or equal bound, then the two ways of matching.
  \<open>now\<close> is \<^verbatim>\<open>time.Now().Format("15:04:05")\<close>.
\<close>

definition scheduleMatches :: "FetchSchedule \<Rightarrow> string \<Rightarrow> bool" where
  "scheduleMatches s now =
     (if StartTime s = [] \<or> EndTime s = [] \<or> StartTime s = EndTime s then False
      else if StartTime s < EndTime s then StartTime s \<le> now \<and> now \<le> EndTime s
      else StartTime s \<le> now \<or> now \<le> EndTime s)"

text \<open>
  \<^verbatim>\<open>getEffectiveInterval\<close>: the loop over \<^verbatim>\<open>globals.RssUrls.Schedules\<close>. The second
  component stands for the description string the Go code formats from the matched rule
  and the count; \<^const>\<open>None\<close> is the text for "no rule matched".
\<close>

fun getEffectiveInterval ::
  "FetchSchedule list \<Rightarrow> string \<Rightarrow> 64 word \<Rightarrow> 64 word \<times> (FetchSchedule \<times> 64 word) option" where
  "getEffectiveInterval [] now sourceRefreshCount = (0, None)"
| "getEffectiveInterval (s # rest) now sourceRefreshCount =
     (if scheduleMatches s now then
        (let count = (if 0 <s sourceRefreshCount then sourceRefreshCount else DefaultCount s)
         in (BaseRefresh s * count, Some (s, count)))
      else getEffectiveInterval rest now sourceRefreshCount)"

section \<open>Configuration and data model\<close>

text \<open>
  \<^verbatim>\<open>models.ClassifyStrategy\<close>. A Go \<^verbatim>\<open>*bool\<close> is a \<^typ>\<open>bool option\<close>.
\<close>

record ClassifyStrategy =
  KeywordEnabled :: "bool option"
  AIEnabled :: "bool option"
  FilterKeywords :: "string list"
  KeepKeywords :: "string list"
  WhitelistMode :: "bool option"
  ScriptFilterEnabled :: "bool option"
  ScriptFilterContent :: string
  BoundCategories :: "string list"
  CategoryBlacklist :: "string list"
  CategoryWhitelist :: "string list"
  CustomPrompt :: string

text \<open>\<^verbatim>\<open>models.PostProcessConfig\<close>; its field \<^verbatim>\<open>Enabled\<close> is \<open>PostProcessEnabled\<close> here.\<close>

record PostProcessConfig =
  PostProcessEnabled :: bool
  Mode :: string
  Prompt :: string
  ScriptPath :: string
  ScriptContent :: string
  ModifyTitle :: bool
  ModifyLink :: bool
  ModifyPubDate :: bool

text \<open>
  \<^verbatim>\<open>models.Source\<close>. \<^verbatim>\<open>MaxItems\<close> and \<^verbatim>\<open>CacheItems\<close> are Go \<^verbatim>\<open>int\<close>s that are only
  compared, never computed with, and are modelled as \<^typ>\<open>int\<close>.
\<close>

record Source =
  URL :: string
  Name :: string
  Icon :: string
  Classify :: "ClassifyStrategy option"
  IgnoreOriginalPubDate :: bool
  RankingMode :: bool
  MaxItems :: int
  CacheItems :: int
  PostProcess :: "PostProcessConfig option"
  RefreshCount :: "64 word"
  ShowPubDate :: bool
  ShowCategory :: bool

text \<open>\<^verbatim>\<open>models.Category\<close> and \<^verbatim>\<open>models.CategoryPackage\<close>.\<close>

record Category =
  CategoryID :: string
  CategoryName :: string
  CategoryDescription :: string
  CategoryColor :: string

record CategoryPackage =
  PackageID :: string
  PackageName :: string
  PackageCategories :: "Category list"

text \<open>
  \<^verbatim>\<open>models.AIClassifyConfig\<close>: the fields the classification loop reads. The fields that
  only shape the HTTP request (API base, model, prompt, token limit, temperature, maximal
  description length) belong to the language-model call, which is an argument of the model.
\<close>

record AIClassifyConfig =
  Enabled :: bool
  APIKey :: string
  Timeout :: int
  Concurrency :: int
  BatchSize :: int
  RetryCount :: int
  RetryWait :: int
  CategoryPackages :: "CategoryPackage list"

text \<open>\<^verbatim>\<open>models.Config\<close>: the parts the core reads.\<close>

record Config =
  Sources :: "Source list"
  Schedules :: "FetchSchedule list"
  AIClassify :: AIClassifyConfig
  Categories :: "Category list"

text \<open>
  \<^verbatim>\<open>models.Item\<close>. The struct in \<^verbatim>\<open>models/feed.go\<close> as given lacks \<^verbatim>\<open>FetchTime\<close>, which
  the update engine reads and writes; it is a string field like \<^verbatim>\<open>PubDate\<close>. The field
  \<^verbatim>\<open>Source\<close> is \<open>ItemSource\<close> here.
\<close>

record Item =
  Title :: string
  Link :: string
  OriginalLink :: string
  Description :: string
  ItemSource :: string
  PubDate :: string
  FetchTime :: string
  Category :: string
  OriginalIndex :: int

text \<open>Runtime panics of the Go code that the model keeps as values.\<close>

datatype panic = NilPointerDereference | MakeSliceCapOutOfRange

section \<open>Configuration reload: which sources are affected\<close>

text \<open>\<^verbatim>\<open>postProcessChanged\<close>.\<close>

definition postProcessChanged :: "PostProcessConfig option \<Rightarrow> PostProcessConfig option \<Rightarrow> bool" where
  "postProcessChanged old new =
     (if (old = None) \<noteq> (new = None) then True
      else case (old, new) of
        (Some old', Some new') \<Rightarrow>
          PostProcessEnabled old' \<noteq> PostProcessEnabled new' \<or>
          Mode old' \<noteq> Mode new' \<or>
          Prompt old' \<noteq> Prompt new' \<or>
          ScriptPath old' \<noteq> ScriptPath new' \<or>
          ScriptContent old' \<noteq> ScriptContent new' \<or>
          ModifyTitle old' \<noteq> ModifyTitle new' \<or>
          ModifyLink old' \<noteq> ModifyLink new' \<or>
          ModifyPubDate old' \<noteq> ModifyPubDate new'
      | _ \<Rightarrow> False)"

text \<open>
  \<^verbatim>\<open>classifyChanged\<close>. For each \<^verbatim>\<open>*bool\<close> the code tests first that one side is nil and
  the other not, then that both are set and differ; together that is inequality of the
  options. The keyword lists are compared by length only, and the bound categories, the
  black- and whitelist and the custom prompt are not read.
\<close>

definition classifyChanged :: "ClassifyStrategy option \<Rightarrow> ClassifyStrategy option \<Rightarrow> bool" where
  "classifyChanged old new =
     (if (old = None) \<noteq> (new = None) then True
      else case (old, new) of
        (Some old', Some new') \<Rightarrow>
          if (KeywordEnabled old' = None) \<noteq> (KeywordEnabled new' = None) then True
          else if KeywordEnabled old' \<noteq> None \<and> KeywordEnabled new' \<noteq> None \<and>
                  the (KeywordEnabled old') \<noteq> the (KeywordEnabled new') then True
          else if (AIEnabled old' = None) \<noteq> (AIEnabled new' = None) then True
          else if AIEnabled old' \<noteq> None \<and> AIEnabled new' \<noteq> None \<and>
                  the (AIEnabled old') \<noteq> the (AIEnabled new') then True
          else if (WhitelistMode old' = None) \<noteq> (WhitelistMode new' = None) then True
          else if WhitelistMode old' \<noteq> None \<and> WhitelistMode new' \<noteq> None \<and>
                  the (WhitelistMode old') \<noteq> the (WhitelistMode new') then True
          else if (ScriptFilterEnabled old' = None) \<noteq> (ScriptFilterEnabled new' = None) then True
          else if ScriptFilterEnabled old' \<noteq> None \<and> ScriptFilterEnabled new' \<noteq> None \<and>
                  the (ScriptFilterEnabled old') \<noteq> the (ScriptFilterEnabled new') then True
          else if ScriptFilterContent old' \<noteq> ScriptFilterContent new' then True
          else if length (FilterKeywords old') \<noteq> length (FilterKeywords new') \<or>
                  length (KeepKeywords old') \<noteq> length (KeepKeywords new') then True
          else False
      | _ \<Rightarrow> False)"

text \<open>\<^verbatim>\<open>sourceChanged\<close>.\<close>

definition sourceChanged :: "Source \<Rightarrow> Source \<Rightarrow> bool" where
  "sourceChanged old new =
     (if MaxItems old \<noteq> MaxItems new \<or>
         CacheItems old \<noteq> CacheItems new \<or>
         IgnoreOriginalPubDate old \<noteq> IgnoreOriginalPubDate new \<or>
         RankingMode old \<noteq> RankingMode new then True
      else if classifyChanged (Classify old) (Classify new) then True
      else if postProcessChanged (PostProcess old) (PostProcess new) then True
      else False)"

text \<open>
  \<^verbatim>\<open>collectAffectedUrls\<close>. \<open>oldSources\<close> is the map the first loop builds (a later source
  with the same URL overwrites an earlier one); the result map, whose values are all
  \<^verbatim>\<open>true\<close>, is the set of its keys.
\<close>

definition oldSourcesMap :: "Source list \<Rightarrow> (string \<rightharpoonup> Source)" where
  "oldSourcesMap srcs =
     foldl (\<lambda>m source. if URL source \<noteq> [] then m(URL source \<mapsto> source) else m) Map.empty srcs"

definition collectAffectedUrls :: "Config \<Rightarrow> Config \<Rightarrow> string set" where
  "collectAffectedUrls oldConfig newConfig =
     (let oldSources = oldSourcesMap (Sources oldConfig)
      in set (map URL
           (filter (\<lambda>source. URL source \<noteq> [] \<and>
                      (case oldSources (URL source) of
                         None \<Rightarrow> True
                       | Some oldSource \<Rightarrow> sourceChanged oldSource source))
                   (Sources newConfig))))"

text \<open>Fixtures: a strategy and a source in which only the named fields are set.\<close>

definition strategyWith :: "string list \<Rightarrow> string list \<Rightarrow> string list \<Rightarrow> ClassifyStrategy" where
  "strategyWith filterKws whitelist blacklist =
     \<lparr>KeywordEnabled = Some True, AIEnabled = None, FilterKeywords = filterKws,
      KeepKeywords = [], WhitelistMode = None, ScriptFilterEnabled = None,
      ScriptFilterContent = [], BoundCategories = [], CategoryBlacklist = blacklist,
      CategoryWhitelist = whitelist, CustomPrompt = []\<rparr>"

definition sourceWith :: "string \<Rightarrow> string \<Rightarrow> ClassifyStrategy option \<Rightarrow> int \<Rightarrow> bool \<Rightarrow> Source" where
  "sourceWith url name strategy cacheItems ranking =
     \<lparr>URL = url, Name = name, Icon = [], Classify = strategy, IgnoreOriginalPubDate = False,
      RankingMode = ranking, MaxItems = 0, CacheItems = cacheItems, PostProcess = None,
      RefreshCount = 0, ShowPubDate = False, ShowCategory = False\<rparr>"

definition aiConfigWith :: "bool \<Rightarrow> int \<Rightarrow> int \<Rightarrow> AIClassifyConfig" where
  "aiConfigWith enabled batchSize retryCount =
     \<lparr>Enabled = enabled, APIKey = ''key'', Timeout = 0, Concurrency = 0, BatchSize = batchSize,
      RetryCount = retryCount, RetryWait = 0, CategoryPackages = []\<rparr>"

definition configWith :: "Source list \<Rightarrow> AIClassifyConfig \<Rightarrow> Config" where
  "configWith srcs ai =
     \<lparr>Sources = srcs, Schedules = [], AIClassify = ai,
      Categories = [\<lparr>CategoryID = ''tech'', CategoryName = ''Tech'', CategoryDescription = [],
                     CategoryColor = []\<rparr>]\<rparr>"

definition itemWith :: "string \<Rightarrow> string \<Rightarrow> string \<Rightarrow> Item" where
  "itemWith title link category =
     \<lparr>Title = title, Link = link, OriginalLink = [], Description = [], ItemSource = [],
      PubDate = [], FetchTime = [], Category = category, OriginalIndex = 0\<rparr>"

section \<open>Retained-items cache\<close>

text \<open>
  \<^verbatim>\<open>globals.ItemsCache\<close>, with \<^verbatim>\<open>GetItemsCache\<close> the lookup and \<^verbatim>\<open>SetItemsCache\<close> the
  update of the in-memory map (the write to the database is asynchronous and outside the
  model).
\<close>

type_synonym ItemsCache = "string \<rightharpoonup> Item list"

definition GetItemsCache :: "ItemsCache \<Rightarrow> string \<Rightarrow> Item list option" where
  "GetItemsCache cache rssURL = cache rssURL"

definition SetItemsCache :: "ItemsCache \<Rightarrow> string \<Rightarrow> Item list \<Rightarrow> ItemsCache" where
  "SetItemsCache cache rssURL items = cache(rssURL \<mapsto> items)"

text \<open>\<^verbatim>\<open>GetCacheItems\<close>: the first source with the URL decides; 0 if there is none.\<close>

fun GetCacheItems :: "Source list \<Rightarrow> string \<Rightarrow> int" where
  "GetCacheItems [] rssURL = 0"
| "GetCacheItems (source # rest) rssURL =
     (if URL source = rssURL then CacheItems source else GetCacheItems rest rssURL)"

text \<open>
  The first loop of \<^verbatim>\<open>mergeWithCachedItems\<close>: \<open>acc\<close> is \<^verbatim>\<open>uniqueNewItems\<close>, and
  \<open>newLinks\<close> the map of the links seen, as the set of its keys.
\<close>

fun uniqueNewItems :: "Item list \<Rightarrow> Item list \<Rightarrow> string set \<Rightarrow> Item list \<times> string set" where
  "uniqueNewItems [] acc newLinks = (acc, newLinks)"
| "uniqueNewItems (item # rest) acc newLinks =
     (if Link item \<noteq> [] \<and> Link item \<notin> newLinks
      then uniqueNewItems rest (acc @ [item]) (insert (Link item) newLinks)
      else uniqueNewItems rest acc newLinks)"

text \<open>
  The second loop, over the cached items: an old item with a link not seen yet is appended,
  and the loop stops once \<^verbatim>\<open>mergedItems\<close> has reached \<^verbatim>\<open>cacheItems\<close> entries. The test
  comes after the append.
\<close>

fun appendCached :: "Item list \<Rightarrow> Item list \<Rightarrow> string set \<Rightarrow> int \<Rightarrow> Item list" where
  "appendCached [] mergedItems newLinks cacheItems = mergedItems"
| "appendCached (item # rest) mergedItems newLinks cacheItems =
     (let fresh = (Link item \<noteq> [] \<and> Link item \<notin> newLinks);
          newLinks' = (if fresh then insert (Link item) newLinks else newLinks);
          mergedItems' = (if fresh then mergedItems @ [item] else mergedItems)
      in if int (length mergedItems') \<ge> cacheItems then mergedItems'
         else appendCached rest mergedItems' newLinks' cacheItems)"

text \<open>The projection stored in the cache: description, source and original index are dropped.\<close>

definition cachedItemToSave :: "Item \<Rightarrow> Item" where
  "cachedItemToSave item =
     \<lparr>Title = Title item, Link = Link item, OriginalLink = OriginalLink item,
      Description = [], ItemSource = [], PubDate = PubDate item, FetchTime = FetchTime item,
      Category = Category item, OriginalIndex = 0\<rparr>"

text \<open>
  \<^verbatim>\<open>mergeWithCachedItems\<close>. With a negative \<^verbatim>\<open>cacheItems\<close> the call of \<^verbatim>\<open>make\<close> with that
  capacity panics; the only caller passes a positive one.
\<close>

definition mergeWithCachedItems ::
  "ItemsCache \<Rightarrow> string \<Rightarrow> Item list \<Rightarrow> int \<Rightarrow> panic + (Item list \<times> ItemsCache)" where
  "mergeWithCachedItems cache url newItems cacheItems =
     (let (newItems', newLinks) = uniqueNewItems newItems [] {}
      in if cacheItems < 0 then Inl MakeSliceCapOutOfRange
         else
           let mergedItems =
                 (case GetItemsCache cache url of
                    Some cachedItems \<Rightarrow> appendCached cachedItems newItems' newLinks cacheItems
                  | None \<Rightarrow> newItems');
               mergedItems = (if int (length mergedItems) > cacheItems
                              then take (nat cacheItems) mergedItems else mergedItems)
           in Inr (mergedItems, SetItemsCache cache url (map cachedItemToSave mergedItems)))"

text \<open>
  The cache step of \<^verbatim>\<open>UpdateFeedWithOptions\<close> (the lines from \<^verbatim>\<open>GetCacheItems\<close> to the
  call of the merge): a configured 0 becomes the number of filtered items, and the merge
  runs only for a positive count.
\<close>

definition effectiveCacheItems :: "Source list \<Rightarrow> string \<Rightarrow> Item list \<Rightarrow> int" where
  "effectiveCacheItems srcs url filteredItems =
     (let cacheItems = GetCacheItems srcs url
      in if cacheItems = 0 then int (length filteredItems) else cacheItems)"

definition cacheMergeStep ::
  "Source list \<Rightarrow> ItemsCache \<Rightarrow> string \<Rightarrow> Item list \<Rightarrow> panic + (Item list \<times> ItemsCache)" where
  "cacheMergeStep srcs cache url filteredItems =
     (let cacheItems = effectiveCacheItems srcs url filteredItems
      in if cacheItems > 0 then mergeWithCachedItems cache url filteredItems cacheItems
         else Inr (filteredItems, cache))"

text \<open>
  The words of the specification for the merge, for comparison: the new list deduplicated
  by link (the first item of each link is kept), followed by the retained items whose link
  is not in the new set, deduplicated in the same way, up to the cap.
\<close>

fun dedupByLink :: "Item list \<Rightarrow> Item list" where
  "dedupByLink [] = []"
| "dedupByLink (x # xs) = x # dedupByLink (filter (\<lambda>y. Link y \<noteq> Link x) xs)"

definition retainedSpec :: "Item list \<Rightarrow> Item list \<Rightarrow> nat \<Rightarrow> Item list" where
  "retainedSpec newItems cachedItems cap =
     take cap (dedupByLink newItems @
               dedupByLink (filter (\<lambda>c. Link c \<notin> Link ` set newItems) cachedItems))"

text \<open>An item the merge loops append: its link is non-empty and not in the set seen so far.\<close>

definition linkFresh :: "string set \<Rightarrow> Item \<Rightarrow> bool" where
  "linkFresh S x \<longleftrightarrow> Link x \<noteq> [] \<and> Link x \<notin> S"

section \<open>Script filter\<close>

text \<open>
  What running \<^verbatim>\<open>bash -c script\<close> under the timeout context can give, in the order in
  which \<^verbatim>\<open>ApplyScriptFilter\<close> tells the cases apart: the deadline passed, the process
  exited with a non-zero code (with its standard error), another failure of \<^verbatim>\<open>cmd.Output\<close>,
  or success with the standard output.
\<close>

datatype execOutcome =
    DeadlineExceeded
  | ExitError string
  | OtherExecError
  | Completed string

datatype scriptError =
    MarshalFailed
  | ScriptTimeout int
  | ScriptExitFailed string
  | ScriptRunFailed
  | ParseOutputFailed string

text \<open>
  The library calls of \<^verbatim>\<open>ApplyScriptFilter\<close>: \<^verbatim>\<open>json.Marshal\<close> of the items, the run of the
  shell (timeout in seconds, script, standard input), \<^verbatim>\<open>strings.TrimSpace\<close>, and
  \<^verbatim>\<open>json.Unmarshal\<close> into a slice of items and into one item.
\<close>

record scriptEnv =
  marshalItems :: "Item list \<Rightarrow> string option"
  runBash :: "int \<Rightarrow> string \<Rightarrow> string \<Rightarrow> execOutcome"
  TrimSpace :: "string \<Rightarrow> string"
  unmarshalItems :: "string \<Rightarrow> Item list option"
  unmarshalItem :: "string \<Rightarrow> Item option"

text \<open>\<^verbatim>\<open>GetTimeout\<close>.\<close>

definition GetTimeout :: "AIClassifyConfig \<Rightarrow> int" where
  "GetTimeout c = (if Timeout c = 0 then 30 else Timeout c)"

text \<open>\<^verbatim>\<open>strings.Split(s, "\n")\<close>: the pieces between line feeds, at least one piece.\<close>

fun splitLines :: "string \<Rightarrow> string list" where
  "splitLines [] = [[]]"
| "splitLines (c # cs) =
     (if c = CHR 0x0A then [] # splitLines cs
      else (case splitLines cs of
              l # ls \<Rightarrow> (c # l) # ls
            | [] \<Rightarrow> [[c]]))"

text \<open>
  The loop over the lines: a blank line is skipped, a line that is no JSON object ends the
  loop with \<^verbatim>\<open>validJSONLines = false\<close> (here \<^const>\<open>None\<close>).
\<close>

fun parseJSONLines :: "scriptEnv \<Rightarrow> string list \<Rightarrow> Item list \<Rightarrow> Item list option" where
  "parseJSONLines env [] itemsL = Some itemsL"
| "parseJSONLines env (line # rest) itemsL =
     (let line' = TrimSpace env line
      in if line' = [] then parseJSONLines env rest itemsL
         else (case unmarshalItem env line' of
                 None \<Rightarrow> None
               | Some item \<Rightarrow> parseJSONLines env rest (itemsL @ [item])))"

text \<open>\<^verbatim>\<open>ApplyScriptFilter\<close>: the items returned and the error, \<^const>\<open>None\<close> for nil.\<close>

definition ApplyScriptFilter ::
  "scriptEnv \<Rightarrow> AIClassifyConfig \<Rightarrow> Item list \<Rightarrow> string \<Rightarrow> Item list \<times> scriptError option" where
  "ApplyScriptFilter env aiConfig items scriptContent =
     (if length items = 0 then (items, None)
      else
        let timeout = GetTimeout aiConfig
        in case marshalItems env items of
             None \<Rightarrow> (items, Some MarshalFailed)
           | Some itemsJSON \<Rightarrow>
               (case runBash env timeout scriptContent itemsJSON of
                  DeadlineExceeded \<Rightarrow> (items, Some (ScriptTimeout timeout))
                | ExitError stderr \<Rightarrow> (items, Some (ScriptExitFailed stderr))
                | OtherExecError \<Rightarrow> (items, Some ScriptRunFailed)
                | Completed output \<Rightarrow>
                    (let trimmedOutput = TrimSpace env output
                     in if trimmedOutput = [] then ([], None)
                        else (case unmarshalItems env output of
                                Some filteredItems \<Rightarrow> (filteredItems, None)
                              | None \<Rightarrow>
                                  (case parseJSONLines env (splitLines trimmedOutput) [] of
                                     Some itemsL \<Rightarrow>
                                       if length itemsL > 0 then (itemsL, None)
                                       else (items, Some (ParseOutputFailed output))
                                   | None \<Rightarrow> (items, Some (ParseOutputFailed output)))))))"

text \<open>
  Fixture: a library environment in which the script \<open>fail\<close> exits non-zero, \<open>slow\<close> runs
  into the deadline, \<open>junk\<close> prints text that is no JSON, and any other script prints
  nothing; white space is not trimmed and nothing parses.
\<close>

definition exampleScriptEnv :: scriptEnv where
  "exampleScriptEnv =
     \<lparr>marshalItems = (\<lambda>items. Some ''[]''),
      runBash = (\<lambda>timeout script stdin.
                   if script = ''fail'' then ExitError ''boom''
                   else if script = ''slow'' then DeadlineExceeded
                   else if script = ''junk'' then Completed ''garbage''
                   else Completed []),
      TrimSpace = (\<lambda>s. s),
      unmarshalItems = (\<lambda>s. None),
      unmarshalItem = (\<lambda>s. None)\<rparr>"

section \<open>Classification and filter pipeline\<close>

text \<open>The getters of \<^verbatim>\<open>ClassifyStrategy\<close>: an unset switch is off.\<close>

definition IsKeywordEnabled :: "ClassifyStrategy \<Rightarrow> bool" where
  "IsKeywordEnabled f = (case KeywordEnabled f of Some b \<Rightarrow> b | None \<Rightarrow> False)"

definition IsAIEnabled :: "ClassifyStrategy \<Rightarrow> bool" where
  "IsAIEnabled f = (case AIEnabled f of Some b \<Rightarrow> b | None \<Rightarrow> False)"

definition IsWhitelistMode :: "ClassifyStrategy \<Rightarrow> bool" where
  "IsWhitelistMode f = (case WhitelistMode f of Some b \<Rightarrow> b | None \<Rightarrow> False)"

definition IsScriptFilterEnabled :: "ClassifyStrategy \<Rightarrow> bool" where
  "IsScriptFilterEnabled f = (case ScriptFilterEnabled f of Some b \<Rightarrow> b | None \<Rightarrow> False)"

text \<open>The getters of \<^verbatim>\<open>AIClassifyConfig\<close> used by the batch stage.\<close>

definition GetBatchSize :: "AIClassifyConfig \<Rightarrow> int" where
  "GetBatchSize c = (if BatchSize c \<le> 0 then 5 else BatchSize c)"

definition GetRetryCount :: "AIClassifyConfig \<Rightarrow> int" where
  "GetRetryCount c = (if RetryCount c < 0 then 0 else if RetryCount c = 0 then 3 else RetryCount c)"

definition GetCategories :: "Config \<Rightarrow> Category list" where
  "GetCategories config =
     (if length (CategoryPackages (AIClassify config)) = 0 then Categories config
      else concat (map PackageCategories (CategoryPackages (AIClassify config))))"

text \<open>\<^verbatim>\<open>getClassifyStrategy\<close>, \<^verbatim>\<open>ShouldUseAI\<close> and \<^verbatim>\<open>ShouldFilter\<close>.\<close>

fun getClassifyStrategy :: "Source list \<Rightarrow> string \<Rightarrow> ClassifyStrategy option" where
  "getClassifyStrategy [] rssURL = None"
| "getClassifyStrategy (source # rest) rssURL =
     (if URL source = rssURL then Classify source else getClassifyStrategy rest rssURL)"

definition ShouldUseAI :: "Config \<Rightarrow> string \<Rightarrow> bool" where
  "ShouldUseAI config rssURL =
     (if \<not> Enabled (AIClassify config) \<or> APIKey (AIClassify config) = [] then False
      else case getClassifyStrategy (Sources config) rssURL of
             None \<Rightarrow> False
           | Some strategy \<Rightarrow> IsAIEnabled strategy)"

definition ShouldFilter :: "Config \<Rightarrow> string \<Rightarrow> bool" where
  "ShouldFilter config rssURL =
     (case getClassifyStrategy (Sources config) rssURL of
        None \<Rightarrow> False
      | Some strategy \<Rightarrow>
          if IsKeywordEnabled strategy then True
          else if IsScriptFilterEnabled strategy then True
          else if Enabled (AIClassify config) \<and> APIKey (AIClassify config) \<noteq> [] \<and>
                  IsAIEnabled strategy then True
          else False)"

text \<open>
  \<^verbatim>\<open>containsKeyword\<close>: \<^verbatim>\<open>strings.Contains\<close> of the lower-cased strings; \<open>toLower\<close> is
  \<^verbatim>\<open>strings.ToLower\<close>, a library function.
\<close>

definition containsKeyword :: "(string \<Rightarrow> string) \<Rightarrow> string \<Rightarrow> string \<Rightarrow> bool" where
  "containsKeyword toLower text keyword = sublist (toLower keyword) (toLower text)"

text \<open>
  \<^verbatim>\<open>ClassifyItemWithCategories\<close> called with \<^verbatim>\<open>keywordOnly = true\<close>, the only way the
  pipeline calls it: the category of the response, which is never nil in that mode.
\<close>

definition keywordCategory :: "(string \<Rightarrow> string) \<Rightarrow> ClassifyStrategy option \<Rightarrow> Item \<Rightarrow> string" where
  "keywordCategory toLower strategy item =
     (case strategy of
        None \<Rightarrow> []
      | Some s \<Rightarrow>
          let hasKeepKeyword =
                (\<exists>keyword \<in> set (KeepKeywords s).
                   containsKeyword toLower (Title item) keyword \<or>
                   containsKeyword toLower (Description item) keyword)
          in if IsWhitelistMode s then (if hasKeepKeyword then ''_keep'' else ''_filtered'')
             else if hasKeepKeyword then ''_keep''
             else if (\<exists>keyword \<in> set (FilterKeywords s).
                        containsKeyword toLower (Title item) keyword \<or>
                        containsKeyword toLower (Description item) keyword)
                  then ''_filtered''
             else [])"

text \<open>\<^verbatim>\<open>applyCategoryFilter\<close>: the maps built from the two lists are their sets.\<close>

definition applyCategoryFilter :: "Item list \<Rightarrow> ClassifyStrategy option \<Rightarrow> Item list" where
  "applyCategoryFilter items strategy =
     (case strategy of
        None \<Rightarrow> items
      | Some s \<Rightarrow>
          filter (\<lambda>item.
              if Category item = ''_keep'' then True
              else if set (CategoryWhitelist s) \<noteq> {} then Category item \<in> set (CategoryWhitelist s)
              else if set (CategoryBlacklist s) \<noteq> {} then Category item \<notin> set (CategoryBlacklist s)
              else True)
            items)"

text \<open>
  \<^verbatim>\<open>applyFiltersAndReturn\<close>. The error of the script filter is only logged; the items it
  returns are kept either way.
\<close>

definition applyFiltersAndReturn ::
  "scriptEnv \<Rightarrow> AIClassifyConfig \<Rightarrow> Item list \<Rightarrow> ClassifyStrategy option \<Rightarrow> Item list" where
  "applyFiltersAndReturn env aiConfig items strategy =
     (let filteredItems = filter (\<lambda>item. Category item \<noteq> ''_filtered'') items;
          filteredItems =
            (case strategy of
               Some s \<Rightarrow>
                 if length (CategoryWhitelist s) > 0 \<or> length (CategoryBlacklist s) > 0
                 then applyCategoryFilter filteredItems strategy else filteredItems
             | None \<Rightarrow> filteredItems)
      in case strategy of
           Some s \<Rightarrow>
             if IsScriptFilterEnabled s \<and> ScriptFilterContent s \<noteq> []
             then fst (ApplyScriptFilter env aiConfig filteredItems (ScriptFilterContent s))
             else filteredItems
         | None \<Rightarrow> filteredItems)"

text \<open>
  \<^verbatim>\<open>globals.ClassifyCache\<close>: link to the \<^verbatim>\<open>Category\<close> of the entry (its only field). A
  task of the batch stage is the index of an item in \<^verbatim>\<open>finalItems\<close> and the item.
\<close>

type_synonym ClassifyCache = "string \<rightharpoonup> string"

type_synonym classifyTask = "nat \<times> Item"

text \<open>
  \<^verbatim>\<open>ClassifyBatchItems\<close> is the call of the language model: for a batch and the number of
  the attempt it gives an error or the \<^verbatim>\<open>Results\<close> map of a non-nil response. (The Go
  function returns a nil response exactly when it returns an error.)
\<close>

type_synonym llmCall = "classifyTask list \<Rightarrow> nat \<Rightarrow> string + (string \<rightharpoonup> string)"

text \<open>\<^verbatim>\<open>fmt.Sprintf("%d", n)\<close> for a non-negative \<open>n\<close>.\<close>

fun itoa :: "nat \<Rightarrow> string" where
  "itoa n = (if n < 10 then [char_of (48 + n)]
             else itoa (n div 10) @ [char_of (48 + n mod 10)])"

declare itoa.simps [simp del]

text \<open>
  The retry loop of the batch worker: \<open>remaining\<close> attempts are left, \<open>r\<close> holds
  \<^verbatim>\<open>resp\<close> and \<^verbatim>\<open>err\<close>, both nil before the first attempt. With \<^verbatim>\<open>maxRetries\<close> \<open>\<le> 0\<close>
  the body never runs.
\<close>

fun retryLoop ::
  "(nat \<Rightarrow> string + (string \<rightharpoonup> string)) \<Rightarrow> nat \<Rightarrow> nat \<Rightarrow>
   (string \<rightharpoonup> string) option \<times> string option \<Rightarrow> (string \<rightharpoonup> string) option \<times> string option" where
  "retryLoop call attempt 0 r = r"
| "retryLoop call attempt (Suc remaining) r =
     (case call attempt of
        Inr results \<Rightarrow> (Some results, None)
      | Inl e \<Rightarrow> retryLoop call (Suc attempt) remaining (None, Some e))"

text \<open>
  The state the batch workers share under the mutex: \<^verbatim>\<open>finalItems\<close>, the classification
  cache, \<^verbatim>\<open>newItems\<close> and \<^verbatim>\<open>failedItems\<close>.
\<close>

type_synonym batchState = "Item list \<times> ClassifyCache \<times> nat \<times> nat"

text \<open>
  The loop over the tasks of a batch once a response is there. The indices come from
  the enumeration of \<^verbatim>\<open>items\<close> and \<^verbatim>\<open>finalItems\<close> is a copy of it, so they are in range.
\<close>

fun applyResults :: "(string \<rightharpoonup> string) \<Rightarrow> classifyTask list \<Rightarrow> batchState \<Rightarrow> batchState" where
  "applyResults results [] st = st"
| "applyResults results ((index, item) # rest) (finalItems, cache, newItems, failedItems) =
     (case results (itoa index) of
        None \<Rightarrow> applyResults results rest (finalItems, cache, newItems, failedItems + 1)
      | Some categoryID \<Rightarrow>
          applyResults results rest
            (finalItems[index := (finalItems ! index)\<lparr>Category := categoryID\<rparr>],
             cache(Link (finalItems ! index) \<mapsto> categoryID),
             newItems + 1, failedItems))"

text \<open>
  One batch worker. After the retry loop an error counts the whole batch as failed. With
  no error the loop over the tasks reads \<^verbatim>\<open>resp.Results\<close>; if \<^verbatim>\<open>resp\<close> is nil, which
  happens when the retry loop made no attempt, the first read panics.
\<close>

definition processBatch :: "llmCall \<Rightarrow> int \<Rightarrow> classifyTask list \<Rightarrow> batchState \<Rightarrow> panic + batchState" where
  "processBatch llm maxRetries tasks st =
     (case retryLoop (llm tasks) 1 (nat maxRetries) (None, None) of
        (resp, Some err) \<Rightarrow>
          (case st of (finalItems, cache, newItems, failedItems) \<Rightarrow>
             Inr (finalItems, cache, newItems, failedItems + length tasks))
      | (resp, None) \<Rightarrow>
          if tasks = [] then Inr st
          else (case resp of
                  None \<Rightarrow> Inl NilPointerDereference
                | Some results \<Rightarrow> Inr (applyResults results tasks st)))"

text \<open>
  The batches run concurrently in Go, each holding the mutex while it writes. They write
  disjoint indices of \<^verbatim>\<open>finalItems\<close> and add to the counters, so the order only matters
  for cache entries of items that share a link; the model runs them in order. A panic in
  any worker ends the process.
\<close>

fun runBatches :: "llmCall \<Rightarrow> int \<Rightarrow> classifyTask list list \<Rightarrow> batchState \<Rightarrow> panic + batchState" where
  "runBatches llm maxRetries [] st = Inr st"
| "runBatches llm maxRetries (tasks # rest) st =
     (case processBatch llm maxRetries tasks st of
        Inl p \<Rightarrow> Inl p
      | Inr st' \<Rightarrow> runBatches llm maxRetries rest st')"

text \<open>The slices \<^verbatim>\<open>pendingTasks[start:end]\<close> of the batch loop.\<close>

definition batchesOf :: "nat \<Rightarrow> classifyTask list \<Rightarrow> classifyTask list list" where
  "batchesOf batchSize pendingTasks =
     (let numBatches = (length pendingTasks + batchSize - 1) div batchSize
      in map (\<lambda>i. take batchSize (drop (i * batchSize) pendingTasks)) [0..<numBatches])"

text \<open>
  The first loop of \<^verbatim>\<open>ClassifyItems\<close>: cache, then keywords, else pending. The state is
  \<^verbatim>\<open>finalItems\<close>, \<^verbatim>\<open>pendingTasks\<close> and \<^verbatim>\<open>cacheHits\<close>.
\<close>

fun cacheAndKeywords ::
  "(string \<Rightarrow> string) \<Rightarrow> ClassifyStrategy option \<Rightarrow> ClassifyCache \<Rightarrow> classifyTask list \<Rightarrow>
   Item list \<times> classifyTask list \<times> nat \<Rightarrow> Item list \<times> classifyTask list \<times> nat" where
  "cacheAndKeywords toLower strategy cache [] st = st"
| "cacheAndKeywords toLower strategy cache ((i, item) # rest) (finalItems, pendingTasks, cacheHits) =
     (let cached = (case cache (Link item) of Some category \<Rightarrow> category \<noteq> [] | None \<Rightarrow> False);
          kw = keywordCategory toLower strategy item
      in if cached then
           cacheAndKeywords toLower strategy cache rest
             (finalItems[i := (finalItems ! i)\<lparr>Category := the (cache (Link item))\<rparr>],
              pendingTasks, cacheHits + 1)
         else if (case strategy of Some s \<Rightarrow> IsKeywordEnabled s \<or> IsWhitelistMode s | None \<Rightarrow> False)
                 \<and> (kw = ''_filtered'' \<or> kw = ''_keep'') then
           cacheAndKeywords toLower strategy cache rest
             (finalItems[i := (finalItems ! i)\<lparr>Category := kw\<rparr>], pendingTasks, cacheHits)
         else
           cacheAndKeywords toLower strategy cache rest
             (finalItems, pendingTasks @ [(i, item)], cacheHits))"

text \<open>The categories offered to the model: all, or the bound ones if any of them exists.\<close>

definition availableCategories :: "Config \<Rightarrow> ClassifyStrategy option \<Rightarrow> Category list" where
  "availableCategories config strategy =
     (let categories = GetCategories config
      in case strategy of
           Some s \<Rightarrow>
             if length (BoundCategories s) > 0 then
               (let boundCats = filter (\<lambda>cat. CategoryID cat \<in> set (BoundCategories s)) categories
                in if length boundCats > 0 then boundCats else categories)
             else categories
         | None \<Rightarrow> categories)"

text \<open>
  \<^verbatim>\<open>ClassifyItems\<close>: the items that pass, the classification cache afterwards, and the
  counts it logs (new, failed, cache hits); or the panic of a batch worker.
\<close>

definition ClassifyItems ::
  "scriptEnv \<Rightarrow> (string \<Rightarrow> string) \<Rightarrow> llmCall \<Rightarrow> Config \<Rightarrow> ClassifyCache \<Rightarrow> Item list \<Rightarrow> string \<Rightarrow>
   panic + (Item list \<times> ClassifyCache \<times> nat \<times> nat \<times> nat)" where
  "ClassifyItems env toLower llm config cache items rssURL =
     (let aiConfig = AIClassify config;
          strategy = getClassifyStrategy (Sources config) rssURL;
          keywordOnly = (\<not> ShouldUseAI config rssURL);
          categories = availableCategories config strategy
      in if length categories = 0 then Inr (items, cache, 0, 0, 0)
         else
           case cacheAndKeywords toLower strategy cache (zip [0..<length items] items) (items, [], 0) of
             (finalItems, pendingTasks, cacheHits) \<Rightarrow>
               if length pendingTasks = 0 then
                 Inr (applyFiltersAndReturn env aiConfig finalItems strategy, cache, 0, 0, cacheHits)
               else if keywordOnly then
                 (let finalItems' =
                        foldl (\<lambda>fi (index, item).
                                 fi[index := (fi ! index)\<lparr>Category := keywordCategory toLower strategy item\<rparr>])
                              finalItems pendingTasks
                  in Inr (applyFiltersAndReturn env aiConfig finalItems' strategy, cache,
                          length pendingTasks, 0, cacheHits))
               else
                 (case runBatches llm (GetRetryCount aiConfig)
                         (batchesOf (nat (GetBatchSize aiConfig)) pendingTasks)
                         (finalItems, cache, 0, 0) of
                    Inl p \<Rightarrow> Inl p
                  | Inr (finalItems', cache', newItems, failedItems) \<Rightarrow>
                      Inr (applyFiltersAndReturn env aiConfig finalItems' strategy, cache',
                           newItems, failedItems, cacheHits)))"

section \<open>Snapshots and the caches keyed by link\<close>

text \<open>
  \<^verbatim>\<open>models.Feed\<close>, the published snapshot of a source. \<^verbatim>\<open>Custom\<close> is a Go map that may be
  nil; reading a key of a nil map or a missing key gives the empty string. The fields
  \<^verbatim>\<open>Title\<close>, \<^verbatim>\<open>Link\<close>, \<^verbatim>\<open>Icon\<close>, \<^verbatim>\<open>ShowPubDate\<close> and \<^verbatim>\<open>ShowCategory\<close> carry the prefix
  \<open>Feed\<close> here.
\<close>

record Feed =
  FeedTitle :: string
  FeedLink :: string
  FeedIcon :: string
  Custom :: "(string \<rightharpoonup> string) option"
  Items :: "Item list"
  IsFolder :: bool
  FilteredCount :: int
  AllItemLinks :: "string list"
  AllItemTitles :: "string list"
  Group :: string
  FeedShowPubDate :: bool
  FeedShowCategory :: bool
  ShowSource :: bool

definition customGet :: "Feed \<Rightarrow> string \<Rightarrow> string" where
  "customGet feed key =
     (case Custom feed of
        None \<Rightarrow> []
      | Some m \<Rightarrow> (case m key of None \<Rightarrow> [] | Some v \<Rightarrow> v))"

text \<open>\<^verbatim>\<open>models.PostProcessCacheEntry\<close>.\<close>

record PostProcessCacheEntry =
  EntryTitle :: string
  EntryLink :: string
  EntryPubDate :: string
  ProcessedAt :: string

text \<open>
  The shared state of the process: the configuration, \<^verbatim>\<open>globals.DbMap\<close>, the
  retained-items cache, the classification cache, the post-process cache and the read
  state (link to the Unix time of reading).
\<close>

record state =
  RssUrls :: Config
  DbMap :: "string \<rightharpoonup> Feed"
  ItemsCacheOf :: ItemsCache
  ClassifyCacheOf :: ClassifyCache
  PostProcessCache :: "string \<rightharpoonup> PostProcessCacheEntry"
  ReadState :: "string \<rightharpoonup> int"

section \<open>Garbage collection\<close>

text \<open>
  The links of a list of items that the collectors mark valid: the link of every item and
  its original link when that is not empty.
\<close>

definition itemLinks :: "Item list \<Rightarrow> string set" where
  "itemLinks items =
     Link ` set items \<union> OriginalLink ` {item \<in> set items. OriginalLink item \<noteq> []}"

text \<open>
  \<^verbatim>\<open>collectValidArticleLinks\<close>: the map with value \<^verbatim>\<open>true\<close> at each link is the set of
  its keys. The order in which Go ranges over the maps does not change the set.
\<close>

definition collectValidArticleLinks :: "(string \<rightharpoonup> Feed) \<Rightarrow> ItemsCache \<Rightarrow> string set" where
  "collectValidArticleLinks dbMap itemsCache =
     (\<Union>feed \<in> ran dbMap. set (AllItemLinks feed) \<union> itemLinks (Items feed))
     \<union> (\<Union>items \<in> ran itemsCache. itemLinks items)"

text \<open>\<^verbatim>\<open>collectValidLinksWithPostProcess\<close>: only sources that have post-processing enabled.\<close>

definition postProcessEnabledUrls :: "Config \<Rightarrow> string set" where
  "postProcessEnabledUrls config =
     URL ` {source \<in> set (Sources config).
              URL source \<noteq> [] \<and>
              (case PostProcess source of Some p \<Rightarrow> PostProcessEnabled p | None \<Rightarrow> False)}"

definition collectValidLinksWithPostProcess ::
  "Config \<Rightarrow> (string \<rightharpoonup> Feed) \<Rightarrow> ItemsCache \<Rightarrow> string set" where
  "collectValidLinksWithPostProcess config dbMap itemsCache =
     (\<Union>rssURL \<in> postProcessEnabledUrls config.
        (case dbMap rssURL of
           Some feed \<Rightarrow> set (AllItemLinks feed) \<union> itemLinks (Items feed)
         | None \<Rightarrow> {})
        \<union> (case itemsCache rssURL of Some items \<Rightarrow> itemLinks items | None \<Rightarrow> {}))"

text \<open>
  \<^verbatim>\<open>cleanupClassifyCache\<close>, \<^verbatim>\<open>cleanupPostProcessCache\<close>: the keys that are not valid are
  collected in \<^verbatim>\<open>toDelete\<close> and deleted; the cache afterwards and \<^verbatim>\<open>toDelete\<close>, whose
  size is the count returned.
\<close>

definition cleanupClassifyCache :: "string set \<Rightarrow> ClassifyCache \<Rightarrow> ClassifyCache \<times> string set" where
  "cleanupClassifyCache validLinks cache =
     (let toDelete = {link \<in> dom cache. link \<notin> validLinks}
      in (\<lambda>link. if link \<in> toDelete then None else cache link, toDelete))"

definition cleanupPostProcessCache ::
  "string set \<Rightarrow> (string \<rightharpoonup> PostProcessCacheEntry) \<Rightarrow>
   (string \<rightharpoonup> PostProcessCacheEntry) \<times> string set" where
  "cleanupPostProcessCache validLinks cache =
     (let toDelete = {link \<in> dom cache. link \<notin> validLinks}
      in (\<lambda>link. if link \<in> toDelete then None else cache link, toDelete))"

text \<open>
  \<^verbatim>\<open>cleanupReadState\<close>; \<open>now\<close> is \<^verbatim>\<open>time.Now().Unix()\<close>. A valid link is skipped, then
  an entry read less than a day ago. The times are \<^verbatim>\<open>int64\<close>; the difference is taken as
  an \<^typ>\<open>int\<close>, which is Go's value unless the entry is more than \<open>2^63\<close> seconds old.
\<close>

definition gracePeriod :: int where
  "gracePeriod = 1 * 24 * 3600"

definition cleanupReadState ::
  "int \<Rightarrow> string set \<Rightarrow> (string \<rightharpoonup> int) \<Rightarrow> (string \<rightharpoonup> int) \<times> string set" where
  "cleanupReadState now validLinks readState =
     (let toDelete = {link \<in> dom readState.
                        \<not> link \<in> validLinks \<and> \<not> now - the (readState link) < gracePeriod}
      in (\<lambda>link. if link \<in> toDelete then None else readState link, toDelete))"

text \<open>\<^verbatim>\<open>cleanupItemsCache\<close>: the retained lists of URLs that no source with caching has.\<close>

definition cleanupItemsCache :: "Config \<Rightarrow> ItemsCache \<Rightarrow> ItemsCache \<times> string set" where
  "cleanupItemsCache config itemsCache =
     (let validUrls = URL ` {source \<in> set (Sources config). URL source \<noteq> [] \<and> CacheItems source \<ge> 0};
          toDelete = {url \<in> dom itemsCache. url \<notin> validUrls}
      in (\<lambda>url. if url \<in> toDelete then None else itemsCache url, toDelete))"

text \<open>
  \<^verbatim>\<open>cleanupPersistentData\<close>, the periodic full sweep (the icon cache lives in the database
  only and is outside the model).
\<close>

definition cleanupPersistentData :: "int \<Rightarrow> state \<Rightarrow> state" where
  "cleanupPersistentData now st =
     (let validLinks = collectValidArticleLinks (DbMap st) (ItemsCacheOf st)
      in if validLinks = {} then st
         else
           let validLinksWithPostProcess =
                 collectValidLinksWithPostProcess (RssUrls st) (DbMap st) (ItemsCacheOf st)
           in st\<lparr>ClassifyCacheOf := fst (cleanupClassifyCache validLinks (ClassifyCacheOf st)),
                 ReadState := fst (cleanupReadState now validLinks (ReadState st)),
                 PostProcessCache :=
                   fst (cleanupPostProcessCache validLinksWithPostProcess (PostProcessCache st)),
                 ItemsCacheOf := fst (cleanupItemsCache (RssUrls st) (ItemsCacheOf st))\<rparr>)"

text \<open>
  \<^verbatim>\<open>GetAllUrls\<close>, \<^verbatim>\<open>isDbMapReady\<close> and the sweeps run on a configuration reload.
\<close>

definition GetAllUrls :: "Config \<Rightarrow> string list" where
  "GetAllUrls c = map URL (filter (\<lambda>source. URL source \<noteq> []) (Sources c))"

definition isDbMapReady :: "state \<Rightarrow> bool" where
  "isDbMapReady st =
     (let allUrls = GetAllUrls (RssUrls st)
      in if length allUrls = 0 then True
         else
           let loadedCount = length (filter (\<lambda>url. DbMap st url \<noteq> None) allUrls)
           in loadedCount \<ge> length allUrls \<or>
              (length allUrls > 0 \<and> loadedCount \<ge> length allUrls * 4 div 5))"

definition CleanupPostProcessCacheOnConfigChange :: "state \<Rightarrow> state" where
  "CleanupPostProcessCacheOnConfigChange st =
     (if \<not> isDbMapReady st then st
      else st\<lparr>PostProcessCache :=
                fst (cleanupPostProcessCache
                       (collectValidLinksWithPostProcess (RssUrls st) (DbMap st) (ItemsCacheOf st))
                       (PostProcessCache st))\<rparr>)"

definition CleanupReadStateOnConfigChange :: "int \<Rightarrow> state \<Rightarrow> state" where
  "CleanupReadStateOnConfigChange now st =
     (if \<not> isDbMapReady st then st
      else st\<lparr>ReadState :=
                fst (cleanupReadState now
                       (collectValidArticleLinks (DbMap st) (ItemsCacheOf st)) (ReadState st))\<rparr>)"

text \<open>
  \<^verbatim>\<open>cleanupClassifyCacheForSource\<close> and \<^verbatim>\<open>cleanupPostProcessCacheForSource\<close>, the sweep
  after the update of one source: each old link that is not among the new ones is deleted.
\<close>

fun cleanupClassifyCacheForSource :: "string list \<Rightarrow> string set \<Rightarrow> ClassifyCache \<Rightarrow> ClassifyCache" where
  "cleanupClassifyCacheForSource [] newLinks cache = cache"
| "cleanupClassifyCacheForSource (link # oldLinks) newLinks cache =
     cleanupClassifyCacheForSource oldLinks newLinks
       (if link \<notin> newLinks then cache(link := None) else cache)"

fun cleanupPostProcessCacheForSource ::
  "string list \<Rightarrow> string set \<Rightarrow> (string \<rightharpoonup> PostProcessCacheEntry) \<Rightarrow>
   (string \<rightharpoonup> PostProcessCacheEntry)" where
  "cleanupPostProcessCacheForSource [] newLinks cache = cache"
| "cleanupPostProcessCacheForSource (link # oldLinks) newLinks cache =
     cleanupPostProcessCacheForSource oldLinks newLinks
       (if link \<notin> newLinks then cache(link := None) else cache)"

section \<open>Feed update engine\<close>

text \<open>
  What the engine reads of a parsed feed (\<^verbatim>\<open>gofeed.Feed\<close>, \<^verbatim>\<open>gofeed.Item\<close>). The parsed
  times of an item are only ever formatted with \<^verbatim>\<open>time.RFC3339\<close>, so each is given by that
  rendering, \<^const>\<open>None\<close> for a nil pointer. \<open>ImageURL\<close> is \<^verbatim>\<open>Image.URL\<close>, \<^const>\<open>None\<close>
  when \<^verbatim>\<open>Image\<close> is nil.
\<close>

record gofeedItem =
  GTitle :: string
  GLink :: string
  GDescription :: string
  PublishedParsed :: "string option"
  UpdatedParsed :: "string option"

record gofeedFeed =
  GFeedTitle :: string
  GItems :: "gofeedItem list"
  ImageURL :: "string option"

text \<open>
  The collaborators of the engine: the feed parser (\<^verbatim>\<open>globals.Fp.ParseURL\<close>, an error text
  or a feed), the rendering of a local time (in Unix seconds) by \<^verbatim>\<open>Format(time.RFC3339)\<close>,
  the host of a URL (\<^verbatim>\<open>url.Parse\<close>, \<^const>\<open>None\<close> on error), \<^verbatim>\<open>url.QueryEscape\<close>,
  \<^verbatim>\<open>strings.ToLower\<close>, the language model and the script environment. \<^verbatim>\<open>ShouldPostProcess\<close>
  and \<^verbatim>\<open>PostProcessItems\<close> are functions of the repository whose file is not among the
  sources; they are taken as they are called, the second with the post-process cache it
  may write.
\<close>

record updateEnv =
  ParseURL :: "string \<Rightarrow> string + gofeedFeed"
  formatRFC3339 :: "int \<Rightarrow> string"
  urlHost :: "string \<Rightarrow> string option"
  QueryEscape :: "string \<Rightarrow> string"
  ToLower :: "string \<Rightarrow> string"
  llmClient :: llmCall
  scriptLib :: scriptEnv
  ShouldPostProcess :: "Config \<Rightarrow> string \<Rightarrow> bool"
  PostProcessItems ::
    "Config \<Rightarrow> (string \<rightharpoonup> PostProcessCacheEntry) \<Rightarrow> Item list \<Rightarrow> string \<Rightarrow>
     Item list \<times> (string \<rightharpoonup> PostProcessCacheEntry)"

text \<open>The display time of a snapshot built from the persisted cache at start-up (UTF-8).\<close>

definition loadedCacheMarker :: string where
  "loadedCacheMarker =
     [CHR 0xE5, CHR 0xB7, CHR 0xB2, CHR 0xE5, CHR 0x8A, CHR 0xA0, CHR 0xE8, CHR 0xBD, CHR 0xBD,
      CHR 0xE7, CHR 0xBC, CHR 0x93, CHR 0xE5, CHR 0xAD, CHR 0x98]"

text \<open>The flags of a source, each decided by the first source with the URL.\<close>

fun ShouldIgnoreOriginalPubDate :: "Source list \<Rightarrow> string \<Rightarrow> bool" where
  "ShouldIgnoreOriginalPubDate [] rssURL = False"
| "ShouldIgnoreOriginalPubDate (source # rest) rssURL =
     (if URL source = rssURL then IgnoreOriginalPubDate source
      else ShouldIgnoreOriginalPubDate rest rssURL)"

fun IsRankingMode :: "Source list \<Rightarrow> string \<Rightarrow> bool" where
  "IsRankingMode [] rssURL = False"
| "IsRankingMode (source # rest) rssURL =
     (if URL source = rssURL then RankingMode source else IsRankingMode rest rssURL)"

fun GetMaxItems :: "Source list \<Rightarrow> string \<Rightarrow> int" where
  "GetMaxItems [] rssURL = 0"
| "GetMaxItems (source # rest) rssURL =
     (if URL source = rssURL then MaxItems source else GetMaxItems rest rssURL)"

text \<open>
  The closure at the start of the update: the first source with the URL and an empty name
  takes the title of the feed, if that is not empty.
\<close>

fun adoptTitle :: "Source list \<Rightarrow> string \<Rightarrow> string \<Rightarrow> Source list" where
  "adoptTitle [] u title = []"
| "adoptTitle (source # rest) u title =
     (if URL source = u \<and> Name source = [] then source\<lparr>Name := title\<rparr> # rest
      else source # adoptTitle rest u title)"

definition adoptFeedTitle :: "Config \<Rightarrow> string \<Rightarrow> string \<Rightarrow> Config" where
  "adoptFeedTitle config u title =
     (if title = [] then config else config\<lparr>Sources := adoptTitle (Sources config) u title\<rparr>)"

text \<open>\<^verbatim>\<open>GetFaviconURL\<close>, \<^verbatim>\<open>ProxyIconURL\<close> and \<^verbatim>\<open>GetIconForFeed\<close>.\<close>

definition GetFaviconURL :: "updateEnv \<Rightarrow> string \<Rightarrow> string" where
  "GetFaviconURL env rssURL =
     (case urlHost env rssURL of
        None \<Rightarrow> []
      | Some host \<Rightarrow>
          if host \<noteq> [] then ''https://www.google.com/s2/favicons?domain='' @ host @ ''&sz=64''
          else [])"

definition ProxyIconURL :: "updateEnv \<Rightarrow> string \<Rightarrow> string" where
  "ProxyIconURL env originalURL =
     (if originalURL = [] then []
      else if prefix ''/api/icon?url='' originalURL then originalURL
      else ''/api/icon?url='' @ QueryEscape env originalURL)"

definition GetIconForFeed :: "updateEnv \<Rightarrow> Source list \<Rightarrow> string \<Rightarrow> gofeedFeed \<Rightarrow> string" where
  "GetIconForFeed env srcs rssURL feed =
     (let iconURL = (case find (\<lambda>source. URL source = rssURL \<and> Icon source \<noteq> []) srcs of
                       Some source \<Rightarrow> Icon source
                     | None \<Rightarrow> []);
          iconURL = (if iconURL = [] then
                       (case ImageURL feed of
                          Some imageURL \<Rightarrow> if imageURL \<noteq> [] then imageURL else iconURL
                        | None \<Rightarrow> iconURL)
                     else iconURL);
          iconURL = (if iconURL = [] then GetFaviconURL env rssURL else iconURL)
      in ProxyIconURL env iconURL)"

text \<open>The cap on the parsed items, applied before the comparison with the old snapshot.\<close>

definition capItems :: "int \<Rightarrow> 'a list \<Rightarrow> 'a list" where
  "capItems maxItems items =
     (if maxItems > 0 \<and> int (length items) > maxItems then take (nat maxItems) items else items)"

text \<open>
  Change detection: \<^verbatim>\<open>hasNewItems\<close> is set when a link of the capped list is not among
  the old links; \<^verbatim>\<open>isChanged\<close> also when the lengths differ or a link or title differs at
  some position.
\<close>

definition hasNewItems :: "gofeedItem list \<Rightarrow> Feed \<Rightarrow> bool" where
  "hasNewItems checkItems cache = (\<exists>item \<in> set checkItems. GLink item \<notin> set (AllItemLinks cache))"

definition isChanged :: "gofeedItem list \<Rightarrow> Feed \<Rightarrow> bool" where
  "isChanged checkItems cache =
     (if hasNewItems checkItems cache then True
      else if length checkItems \<noteq> length (AllItemLinks cache) \<or>
              length checkItems \<noteq> length (AllItemTitles cache) then True
      else (\<exists>i < length checkItems.
              GLink (checkItems ! i) \<noteq> AllItemLinks cache ! i \<or>
              GTitle (checkItems ! i) \<noteq> AllItemTitles cache ! i))"

text \<open>
  The maps of cached publish and fetch times of a source: first from the items of the old
  snapshot (a later item with the same link overwrites), then from the retained items
  (only for links not yet there).
\<close>

definition cachedTimes :: "(Item \<Rightarrow> string) \<Rightarrow> Item list \<Rightarrow> Item list \<Rightarrow> (string \<rightharpoonup> string)" where
  "cachedTimes field snapshotItems retainedItems =
     (let m = foldl (\<lambda>m item. if field item \<noteq> [] then m(Link item \<mapsto> field item) else m)
                    Map.empty snapshotItems
      in foldl (\<lambda>m item. if field item \<noteq> [] \<and> m (Link item) = None
                          then m(Link item \<mapsto> field item) else m)
               m retainedItems)"

text \<open>
  The body of the loop that builds \<^verbatim>\<open>allItems\<close>: the three modes of the publish time,
  then the fetch time. \<open>rankingBaseTime\<close> is \<^verbatim>\<open>time.Now()\<close> in Unix seconds; subtracting
  \<open>idx\<close> seconds and formatting to the second is exact on seconds.
\<close>

definition buildItem ::
  "updateEnv \<Rightarrow> bool \<Rightarrow> bool \<Rightarrow> int \<Rightarrow> string \<Rightarrow> string \<Rightarrow>
   (string \<rightharpoonup> string) \<Rightarrow> (string \<rightharpoonup> string) \<Rightarrow> nat \<times> gofeedItem \<Rightarrow> Item" where
  "buildItem env rankingMode ignoreOriginalPubDate rankingBaseTime formattedTime feedTitle
             cachedPubDates cachedFetchTimes iv =
     (case iv of (idx, v) \<Rightarrow>
        let pubDate =
              (if rankingMode then formatRFC3339 env (rankingBaseTime - int idx)
               else if ignoreOriginalPubDate then
                 (case cachedPubDates (GLink v) of Some cached \<Rightarrow> cached | None \<Rightarrow> formattedTime)
               else
                 (case PublishedParsed v of
                    Some t \<Rightarrow> t
                  | None \<Rightarrow>
                      (case UpdatedParsed v of
                         Some t \<Rightarrow> t
                       | None \<Rightarrow>
                           (case cachedPubDates (GLink v) of
                              Some cached \<Rightarrow> cached
                            | None \<Rightarrow> formattedTime))));
            fetchTime =
              (case cachedFetchTimes (GLink v) of Some cached \<Rightarrow> cached | None \<Rightarrow> formattedTime)
        in \<lparr>Title = GTitle v, Link = GLink v, OriginalLink = [], Description = GDescription v,
            ItemSource = feedTitle, PubDate = pubDate, FetchTime = fetchTime, Category = [],
            OriginalIndex = int idx\<rparr>)"

definition buildAllItems ::
  "updateEnv \<Rightarrow> bool \<Rightarrow> bool \<Rightarrow> int \<Rightarrow> string \<Rightarrow> string \<Rightarrow>
   (string \<rightharpoonup> string) \<Rightarrow> (string \<rightharpoonup> string) \<Rightarrow> gofeedItem list \<Rightarrow> Item list" where
  "buildAllItems env rankingMode ignoreOriginalPubDate rankingBaseTime formattedTime feedTitle
                 cachedPubDates cachedFetchTimes items =
     map (buildItem env rankingMode ignoreOriginalPubDate rankingBaseTime formattedTime feedTitle
            cachedPubDates cachedFetchTimes)
         (zip [0..<length items] items)"

text \<open>
  The comparison given to \<^verbatim>\<open>sort.SliceStable\<close>: later publish time first (the strings are
  compared), the smaller original index first among equal times.
\<close>

definition itemLess :: "Item \<Rightarrow> Item \<Rightarrow> bool" where
  "itemLess a b =
     (if PubDate a = PubDate b then OriginalIndex a < OriginalIndex b
      else PubDate a > PubDate b)"

text \<open>
  \<^verbatim>\<open>sort.SliceStable\<close> as a stable insertion sort. The comparison above is a strict weak
  order, for which every stable sort returns the same list.
\<close>

fun insertStable :: "('a \<Rightarrow> 'a \<Rightarrow> bool) \<Rightarrow> 'a \<Rightarrow> 'a list \<Rightarrow> 'a list" where
  "insertStable lessFn x [] = [x]"
| "insertStable lessFn x (y # ys) =
     (if lessFn y x then y # insertStable lessFn x ys else x # y # ys)"

definition SliceStable :: "('a \<Rightarrow> 'a \<Rightarrow> bool) \<Rightarrow> 'a list \<Rightarrow> 'a list" where
  "SliceStable lessFn xs = foldr (insertStable lessFn) xs []"

text \<open>
  The filter stage as the engine sees it: with filtering on, the items that
  \<^const>\<open>ClassifyItems\<close> returns give the links that passed and, by link (the last item of a
  link wins), the categories copied into \<^verbatim>\<open>allItems\<close>; with filtering off every link
  passes. The result is \<^verbatim>\<open>allItems\<close> with the categories, the set \<^verbatim>\<open>passedLinks\<close> and
  the classification cache.
\<close>

definition copyCategories :: "Item list \<Rightarrow> Item list \<Rightarrow> Item list" where
  "copyCategories filteredItems allItems =
     (let categoryMap = foldl (\<lambda>m item. m(Link item \<mapsto> Category item)) Map.empty filteredItems
      in map (\<lambda>item. case categoryMap (Link item) of
                         Some cat \<Rightarrow> item\<lparr>Category := cat\<rparr>
                       | None \<Rightarrow> item)
             allItems)"

definition filterStage ::
  "updateEnv \<Rightarrow> Config \<Rightarrow> ClassifyCache \<Rightarrow> string \<Rightarrow> Item list \<Rightarrow>
   panic + (Item list \<times> string set \<times> ClassifyCache)" where
  "filterStage env config classifyCache url allItems =
     (if ShouldFilter config url then
        (case ClassifyItems (scriptLib env) (ToLower env) (llmClient env) config classifyCache allItems url of
           Inl p \<Rightarrow> Inl p
         | Inr (filteredItems, classifyCache', counts) \<Rightarrow>
             Inr (copyCategories filteredItems allItems, Link ` set filteredItems, classifyCache'))
      else Inr (allItems, Link ` set allItems, classifyCache))"

text \<open>
  The filtered list is rebuilt from the sorted \<^verbatim>\<open>allItems\<close>: the items whose link passed,
  or all of them when there are at least as many passed links as items.
\<close>

definition refilter :: "string set \<Rightarrow> Item list \<Rightarrow> Item list" where
  "refilter passedLinks allItems =
     (if card passedLinks < length allItems
      then filter (\<lambda>item. Link item \<in> passedLinks) allItems
      else allItems)"

text \<open>
  The sweep of the classification and post-process caches after the update of one source
  (a goroutine in Go; it touches only these two caches). \<open>oldFeed\<close> is the snapshot before
  publication, \<open>retained\<close> the retained items read after the merge.
\<close>

definition oldLinksOf :: "Feed option \<Rightarrow> string list" where
  "oldLinksOf oldFeed =
     (case oldFeed of
        None \<Rightarrow> []
      | Some cache \<Rightarrow>
          if length (AllItemLinks cache) = 0 then map Link (Items cache) else AllItemLinks cache)"

definition oldItemLinksOf :: "Feed option \<Rightarrow> Item list option \<Rightarrow> string list" where
  "oldItemLinksOf oldFeed retained =
     (case oldFeed of None \<Rightarrow> [] | Some cache \<Rightarrow> map Link (Items cache))
     @ (case retained of None \<Rightarrow> [] | Some cachedItems \<Rightarrow> map Link cachedItems)"

definition currentLinksOf :: "string list \<Rightarrow> Item list \<Rightarrow> string list \<Rightarrow> string set" where
  "currentLinksOf newLinks newFilteredItems oldItemLinks =
     set newLinks \<union> Link ` set newFilteredItems \<union> set oldItemLinks"

definition sweepSource ::
  "updateEnv \<Rightarrow> string \<Rightarrow> string list \<Rightarrow> string list \<Rightarrow> string list \<Rightarrow> Item list \<Rightarrow> state \<Rightarrow> state" where
  "sweepSource env u newLinks oldLinks oldItemLinks newFilteredItems st =
     (let currentLinks = currentLinksOf newLinks newFilteredItems oldItemLinks;
          st = (if length oldLinks > 0
                then st\<lparr>ClassifyCacheOf :=
                          cleanupClassifyCacheForSource oldLinks currentLinks (ClassifyCacheOf st)\<rparr>
                else st)
      in if length oldLinks > 0 \<and> ShouldPostProcess env (RssUrls st) u
         then st\<lparr>PostProcessCache :=
                   cleanupPostProcessCacheForSource oldLinks currentLinks (PostProcessCache st)\<rparr>
         else st)"

text \<open>The display time: the latest non-empty fetch time of the items, as strings.\<close>

definition latestFetchTime :: "Item list \<Rightarrow> string" where
  "latestFetchTime items =
     foldl (\<lambda>lastUpdateTime item.
              if FetchTime item \<noteq> [] \<and> (lastUpdateTime = [] \<or> FetchTime item > lastUpdateTime)
              then FetchTime item else lastUpdateTime)
           [] items"

text \<open>
  The return of the update when nothing changed: only a snapshot that still shows the
  start-up placeholder as its display time gets the time of this fetch.
\<close>

definition unchangedReturn :: "string \<Rightarrow> string \<Rightarrow> state \<Rightarrow> state" where
  "unchangedReturn url formattedTime st =
     (case DbMap st url of
        None \<Rightarrow> st
      | Some c \<Rightarrow>
          (case Custom c of
             None \<Rightarrow> st
           | Some m \<Rightarrow>
               if customGet c ''lastupdate'' = loadedCacheMarker
               then st\<lparr>DbMap := (DbMap st)(url \<mapsto> c\<lparr>Custom := Some (m(''lastupdate'' \<mapsto> formattedTime))\<rparr>)\<rparr>
               else st))"

text \<open>
  \<^verbatim>\<open>UpdateFeedWithOptions\<close> is given in three parts. The first is the list \<^verbatim>\<open>allItems\<close>
  as built from the parsed feed and the cached times and then capped.
\<close>

definition reconciledItems :: "updateEnv \<Rightarrow> int \<Rightarrow> string \<Rightarrow> string \<Rightarrow> gofeedFeed \<Rightarrow> state \<Rightarrow> Item list" where
  "reconciledItems env rankingBaseTime url formattedTime result st =
     (let srcs = Sources (RssUrls st);
          snapshotItems = (case DbMap st url of Some c \<Rightarrow> Items c | None \<Rightarrow> []);
          retainedItems = (case GetItemsCache (ItemsCacheOf st) url of
                             Some cachedItems \<Rightarrow> cachedItems | None \<Rightarrow> []);
          cachedPubDates = cachedTimes PubDate snapshotItems retainedItems;
          cachedFetchTimes = cachedTimes FetchTime snapshotItems retainedItems
      in capItems (GetMaxItems srcs url)
           (buildAllItems env (IsRankingMode srcs url) (ShouldIgnoreOriginalPubDate srcs url)
              rankingBaseTime formattedTime (GFeedTitle result) cachedPubDates cachedFetchTimes
              (GItems result)))"

text \<open>
  The second part runs from the sort to the publication, given the outcome of the filter
  stage (\<^verbatim>\<open>allItems\<close> with categories, \<^verbatim>\<open>passedLinks\<close>, the classification cache).
  \<open>cache\<close> is the snapshot read at the start of the update and \<open>originalCount\<close> the
  number of capped items.
\<close>

definition finishUpdate ::
  "updateEnv \<Rightarrow> string \<Rightarrow> string \<Rightarrow> gofeedFeed \<Rightarrow> bool \<Rightarrow> Feed option \<Rightarrow> int \<Rightarrow>
   Item list \<times> string set \<times> ClassifyCache \<Rightarrow> state \<Rightarrow> panic + state" where
  "finishUpdate env url formattedTime result shouldUpdateDisplayTime cache originalCount filtered st =
     (case filtered of (allItems, passedLinks, classifyCache) \<Rightarrow>
        let srcs = Sources (RssUrls st);
            icon = GetIconForFeed env srcs url result;
            allItems = SliceStable itemLess allItems;
            filteredItems = refilter passedLinks allItems;
            (filteredItems, postProcessCache) =
              (if ShouldPostProcess env (RssUrls st) url
               then PostProcessItems env (RssUrls st) (PostProcessCache st) filteredItems url
               else (filteredItems, PostProcessCache st))
        in case cacheMergeStep srcs (ItemsCacheOf st) url filteredItems of
             Inl p \<Rightarrow> Inl p
           | Inr (filteredItems, itemsCache) \<Rightarrow>
               let allItemLinks = map Link allItems;
                   allItemTitles = map Title allItems;
                   st1 = st\<lparr>ClassifyCacheOf := classifyCache,
                            PostProcessCache := postProcessCache,
                            ItemsCacheOf := itemsCache\<rparr>;
                   oldLinks = oldLinksOf (DbMap st1 url);
                   oldItemLinks = oldItemLinksOf (DbMap st1 url)
                                    (GetItemsCache (ItemsCacheOf st1) url);
                   st2 = sweepSource env url allItemLinks oldLinks oldItemLinks filteredItems st1;
                   lastUpdateTime = latestFetchTime filteredItems;
                   lastUpdateTime =
                     (if lastUpdateTime = [] then
                        (if \<not> shouldUpdateDisplayTime \<and> cache \<noteq> None \<and>
                            customGet (the cache) ''lastupdate'' \<noteq> loadedCacheMarker
                         then customGet (the cache) ''lastupdate''
                         else formattedTime)
                      else lastUpdateTime);
                   customFeed =
                     \<lparr>FeedTitle = GFeedTitle result, FeedLink = url, FeedIcon = icon,
                      Custom = Some [''lastupdate'' \<mapsto> lastUpdateTime],
                      Items = filteredItems, IsFolder = False,
                      FilteredCount = originalCount - int (length filteredItems),
                      AllItemLinks = allItemLinks, AllItemTitles = allItemTitles,
                      Group = [], FeedShowPubDate = False, FeedShowCategory = False,
                      ShowSource = False\<rparr>
               in Inr (st2\<lparr>DbMap := (DbMap st2)(url \<mapsto> customFeed)\<rparr>))"

text \<open>
  The whole of \<^verbatim>\<open>UpdateFeedWithOptions\<close>. The result is the panic of a worker, or the error
  returned (\<^const>\<open>None\<close> for nil) with the state afterwards. Taking and releasing the global
  semaphore only delays the call and has no part in the model; \<open>isManual\<close> only chooses
  log texts.
\<close>

definition UpdateFeedWithOptions ::
  "updateEnv \<Rightarrow> int \<Rightarrow> string \<Rightarrow> string \<Rightarrow> bool \<Rightarrow> bool \<Rightarrow> state \<Rightarrow>
   panic + (string option \<times> state)" where
  "UpdateFeedWithOptions env rankingBaseTime url formattedTime isManual forceReprocess st0 =
     (case ParseURL env url of
        Inl err \<Rightarrow> Inr (Some err, st0)
      | Inr result \<Rightarrow>
          let st = st0\<lparr>RssUrls := adoptFeedTitle (RssUrls st0) url (GFeedTitle result)\<rparr>;
              srcs = Sources (RssUrls st);
              ignoreOriginalPubDate = ShouldIgnoreOriginalPubDate srcs url;
              cache = DbMap st url;
              checkItems = capItems (GetMaxItems srcs url) (GItems result);
              detect = (cache \<noteq> None \<and> length checkItems > 0 \<and> \<not> forceReprocess)
          in if detect \<and> \<not> isChanged checkItems (the cache)
             then Inr (None, unchangedReturn url formattedTime st)
             else
               let shouldUpdateDisplayTime =
                     (\<not> (detect \<and> ignoreOriginalPubDate \<and> \<not> hasNewItems checkItems (the cache)));
                   allItems = reconciledItems env rankingBaseTime url formattedTime result st;
                   originalCount = int (length allItems)
               in case filterStage env (RssUrls st) (ClassifyCacheOf st) url allItems of
                    Inl p \<Rightarrow> Inl p
                  | Inr filtered \<Rightarrow>
                      (case finishUpdate env url formattedTime result shouldUpdateDisplayTime cache
                              originalCount filtered st of
                         Inl p \<Rightarrow> Inl p
                       | Inr st' \<Rightarrow> Inr (None, st')))"

text \<open>\<^verbatim>\<open>UpdateFeed\<close>.\<close>

definition UpdateFeed ::
  "updateEnv \<Rightarrow> int \<Rightarrow> string \<Rightarrow> string \<Rightarrow> bool \<Rightarrow> state \<Rightarrow> panic + (string option \<times> state)" where
  "UpdateFeed env rankingBaseTime url formattedTime isManual st =
     UpdateFeedWithOptions env rankingBaseTime url formattedTime isManual False st"

text \<open>
  Fixtures: collaborators that parse every URL to the given feed, render a time as that
  many letters, use no model answer and no post-processing; and a state with empty caches.
\<close>

definition exampleEnv :: "gofeedFeed \<Rightarrow> updateEnv" where
  "exampleEnv feed =
     \<lparr>ParseURL = (\<lambda>url. Inr feed),
      formatRFC3339 = (\<lambda>t. replicate (nat t) CHR ''t''),
      urlHost = (\<lambda>url. None),
      QueryEscape = (\<lambda>s. s),
      ToLower = (\<lambda>s. s),
      llmClient = (\<lambda>tasks attempt. Inr Map.empty),
      scriptLib = exampleScriptEnv,
      ShouldPostProcess = (\<lambda>config url. False),
      PostProcessItems = (\<lambda>config cache items url. (items, cache))\<rparr>"

definition stateWith :: "Config \<Rightarrow> (string \<rightharpoonup> Feed) \<Rightarrow> ItemsCache \<Rightarrow> ClassifyCache \<Rightarrow> state" where
  "stateWith config dbMap itemsCache classifyCache =
     \<lparr>RssUrls = config, DbMap = dbMap, ItemsCacheOf = itemsCache, ClassifyCacheOf = classifyCache,
      PostProcessCache = Map.empty, ReadState = Map.empty\<rparr>"

definition feedItem :: "string \<Rightarrow> string \<Rightarrow> string option \<Rightarrow> gofeedItem" where
  "feedItem title link published =
     \<lparr>GTitle = title, GLink = link, GDescription = [], PublishedParsed = published,
      UpdatedParsed = None\<rparr>"

definition snapshotWith :: "string \<Rightarrow> string \<Rightarrow> Item list \<Rightarrow> string list \<Rightarrow> string list \<Rightarrow> Feed" where
  "snapshotWith url lastupdate items links titles =
     \<lparr>FeedTitle = ''T'', FeedLink = url, FeedIcon = [], Custom = Some [''lastupdate'' \<mapsto> lastupdate],
      Items = items, IsFolder = False, FilteredCount = 0, AllItemLinks = links,
      AllItemTitles = titles, Group = [], FeedShowPubDate = False, FeedShowCategory = False,
      ShowSource = False\<rparr>"

definition fullItem :: "string \<Rightarrow> string \<Rightarrow> string \<Rightarrow> string \<Rightarrow> int \<Rightarrow> Item" where
  "fullItem title link pubDate fetchTime idx =
     \<lparr>Title = title, Link = link, OriginalLink = [], Description = [], ItemSource = ''T'',
      PubDate = pubDate, FetchTime = fetchTime, Category = [], OriginalIndex = idx\<rparr>"

text \<open>
  A rendering for \<^verbatim>\<open>formatRFC3339\<close>: what \<^verbatim>\<open>Format(time.RFC3339)\<close> gives for local times of
  a zone that falls back from UTC+2 to UTC+1 at 01:00:00 UTC on 2026-10-25 (Unix time
  1792890000), for the instants of that local day. \<^verbatim>\<open>time.Now()\<close> carries the local zone,
  and so does the time \<^verbatim>\<open>Add\<close> returns.
\<close>

definition twoDigits :: "nat \<Rightarrow> string" where
  "twoDigits n = [''0123456789'' ! (n div 10 mod 10), ''0123456789'' ! (n mod 10)]"

definition fallBackFormat :: "int \<Rightarrow> string" where
  "fallBackFormat t =
     (let summer = t < 1792890000;
          secs = nat (t - 1792886400 + (if summer then 7200 else 3600))
      in ''2026-10-25T'' @ twoDigits (secs div 3600) @ '':'' @ twoDigits (secs div 60 mod 60)
         @ '':'' @ twoDigits (secs mod 60) @ (if summer then ''+02:00'' else ''+01:00''))"

text \<open>
  Fixtures for the sweeps: a source with post-processing on, and a state in which the
  link \<open>a\<close> of its snapshot has an entry in each link-keyed cache.
\<close>

definition postProcessedSource :: "string \<Rightarrow> Source" where
  "postProcessedSource url =
     (sourceWith url ''N'' None (- 1) False)
       \<lparr>PostProcess := Some \<lparr>PostProcessEnabled = True, Mode = ''script'', Prompt = [],
                              ScriptPath = [], ScriptContent = [], ModifyTitle = False,
                              ModifyLink = False, ModifyPubDate = False\<rparr>\<rparr>"

definition sweptState :: state where
  "sweptState =
     (stateWith (configWith [postProcessedSource ''u''] (aiConfigWith False 0 0))
        [''u'' \<mapsto> snapshotWith ''u'' ''t1'' [] [''a''] [''A'']] Map.empty [''a'' \<mapsto> ''tech''])
       \<lparr>PostProcessCache := [''a'' \<mapsto> \<lparr>EntryTitle = ''A'', EntryLink = ''a'', EntryPubDate = [],
                                       ProcessedAt = ''t1''\<rparr>],
        ReadState := [''a'' \<mapsto> 100]\<rparr>"

text \<open>
  The canonical order in the words of the specification: descending by reconciled
  timestamp, ties ascending by original index. \<open>itemLeq a b\<close> says that \<open>a\<close> may stand
  before \<open>b\<close>.
\<close>

definition itemLeq :: "Item \<Rightarrow> Item \<Rightarrow> bool" where
  "itemLeq a b \<longleftrightarrow> PubDate a > PubDate b \<or> (PubDate a = PubDate b \<and> OriginalIndex a \<le> OriginalIndex b)"

section \<open>Properties of the interval policy\<close>

lemma getEffectiveInterval_find:
  "getEffectiveInterval scheds now rc =
     (case find (\<lambda>s. scheduleMatches s now) scheds of
        None \<Rightarrow> (0, None)
      | Some s \<Rightarrow> (let count = (if 0 <s rc then rc else DefaultCount s)
                  in (BaseRefresh s * count, Some (s, count))))"
  by (induction scheds) simp_all

text \<open>
  Claim C6. The interval is that of the first schedule window, in configured order, that
  matches the time of day: the window's base refresh times the source's own refresh count
  when that is positive, else times the window's default count; it is 0 when no window
  matches. A window with non-empty bounds and start < end matches \<open>t\<close> iff
  start \<le> t \<le> end; one with start > end matches iff t \<ge> start or t \<le> end; a window with
  an empty bound or equal bounds never matches. The product is Go's (64-bit) product, and
  is the mathematical one whenever that fits. For the schedule 08:00:00-23:00:00 with base
  10 and default count 1, a source with refresh count 3 gets 30 minutes at 09:00:00.
\<close>

theorem effective_interval_first_match:
  "getEffectiveInterval scheds t rc =
     (case find (\<lambda>s. scheduleMatches s t) scheds of
        None \<Rightarrow> (0, None)
      | Some s \<Rightarrow> (BaseRefresh s * (if 0 <s rc then rc else DefaultCount s),
                   Some (s, if 0 <s rc then rc else DefaultCount s)))
   \<and> (StartTime w \<noteq> [] \<and> EndTime w \<noteq> [] \<and> StartTime w < EndTime w \<longrightarrow>
        (scheduleMatches w t \<longleftrightarrow> StartTime w \<le> t \<and> t \<le> EndTime w))
   \<and> (StartTime w \<noteq> [] \<and> EndTime w \<noteq> [] \<and> StartTime w > EndTime w \<longrightarrow>
        (scheduleMatches w t \<longleftrightarrow> t \<ge> StartTime w \<or> t \<le> EndTime w))
   \<and> (StartTime w = [] \<or> EndTime w = [] \<or> StartTime w = EndTime w \<longrightarrow> \<not> scheduleMatches w t)
   \<and> (- (2 ^ 63) \<le> sint (b :: 64 word) * sint (c :: 64 word) \<and> sint b * sint c < 2 ^ 63 \<longrightarrow>
        sint (b * c) = sint b * sint c)
   \<and> getEffectiveInterval
        [\<lparr>StartTime = ''08:00:00'', EndTime = ''23:00:00'', BaseRefresh = 10, DefaultCount = 1\<rparr>]
        ''09:00:00'' 3
      = (30, Some (\<lparr>StartTime = ''08:00:00'', EndTime = ''23:00:00'', BaseRefresh = 10,
                     DefaultCount = 1\<rparr>, 3))"
proof (intro conjI impI)
  show "getEffectiveInterval scheds t rc =
     (case find (\<lambda>s. scheduleMatches s t) scheds of
        None \<Rightarrow> (0, None)
      | Some s \<Rightarrow> (BaseRefresh s * (if 0 <s rc then rc else DefaultCount s),
                   Some (s, if 0 <s rc then rc else DefaultCount s)))"
    by (simp add: getEffectiveInterval_find Let_def split: option.splits)
  show "scheduleMatches w t \<longleftrightarrow> StartTime w \<le> t \<and> t \<le> EndTime w"
    if "StartTime w \<noteq> [] \<and> EndTime w \<noteq> [] \<and> StartTime w < EndTime w"
    using that by (auto simp: scheduleMatches_def)
  show "scheduleMatches w t \<longleftrightarrow> t \<ge> StartTime w \<or> t \<le> EndTime w"
    if "StartTime w \<noteq> [] \<and> EndTime w \<noteq> [] \<and> StartTime w > EndTime w"
    using that by (auto simp: scheduleMatches_def)
  show "\<not> scheduleMatches w t"
    if "StartTime w = [] \<or> EndTime w = [] \<or> StartTime w = EndTime w"
    using that by (auto simp: scheduleMatches_def)
  show "sint (b * c) = sint b * sint c"
    if "- (2 ^ 63) \<le> sint b * sint c \<and> sint b * sint c < 2 ^ 63"
    using that by (simp add: signed_take_bit_int_eq_self sint_word_ariths(3))
  show "getEffectiveInterval
     [\<lparr>StartTime = ''08:00:00'', EndTime = ''23:00:00'', BaseRefresh = 10, DefaultCount = 1\<rparr>]
     ''09:00:00'' 3
   = (30, Some (\<lparr>StartTime = ''08:00:00'', EndTime = ''23:00:00'', BaseRefresh = 10,
                  DefaultCount = 1\<rparr>, 3))"
    by (simp add: scheduleMatches_def word_sless_alt)
qed

theorem effective_interval_first_match_witness:
  "getEffectiveInterval
     [\<lparr>StartTime = [], EndTime = ''23:00:00'', BaseRefresh = 5, DefaultCount = 1\<rparr>,
      \<lparr>StartTime = ''22:00:00'', EndTime = ''08:00:00'', BaseRefresh = 30, DefaultCount = 2\<rparr>]
     ''23:30:00'' 0
   = (60, Some (\<lparr>StartTime = ''22:00:00'', EndTime = ''08:00:00'', BaseRefresh = 30,
                  DefaultCount = 2\<rparr>, 2))
   \<and> scheduleMatches
        \<lparr>StartTime = ''22:00:00'', EndTime = ''08:00:00'', BaseRefresh = 30, DefaultCount = 2\<rparr>
        ''23:30:00''
   \<and> \<not> scheduleMatches
        \<lparr>StartTime = ''08:00:00'', EndTime = ''23:00:00'', BaseRefresh = 10, DefaultCount = 1\<rparr>
        ''23:30:00''
   \<and> \<not> scheduleMatches
        \<lparr>StartTime = [], EndTime = ''23:00:00'', BaseRefresh = 5, DefaultCount = 1\<rparr>
        ''23:30:00''
   \<and> sint ((30 :: 64 word) * 2) = 60"
  using effective_interval_first_match
    [of "[\<lparr>StartTime = [], EndTime = ''23:00:00'', BaseRefresh = 5, DefaultCount = 1\<rparr>,
          \<lparr>StartTime = ''22:00:00'', EndTime = ''08:00:00'', BaseRefresh = 30, DefaultCount = 2\<rparr>]"
        "''23:30:00''" 0
        "\<lparr>StartTime = ''22:00:00'', EndTime = ''08:00:00'', BaseRefresh = 30, DefaultCount = 2\<rparr>"
        30 2]
    effective_interval_first_match
    [of "[]" "''23:30:00''" 0
        "\<lparr>StartTime = ''08:00:00'', EndTime = ''23:00:00'', BaseRefresh = 10, DefaultCount = 1\<rparr>"
        30 2]
    effective_interval_first_match
    [of "[]" "''23:30:00''" 0
        "\<lparr>StartTime = [], EndTime = ''23:00:00'', BaseRefresh = 5, DefaultCount = 1\<rparr>"
        30 2]
  by (simp add: scheduleMatches_def word_sless_alt)

section \<open>Properties of the reload diff\<close>

lemma if_then_True: "(if c then True else d) = (c \<or> d)"
  by simp

lemma opt_differs:
  "(((a = None) \<noteq> (b = None)) \<or> ((a \<noteq> None \<and> b \<noteq> None \<and> the a \<noteq> the b) \<or> R)) = (a \<noteq> b \<or> R)"
  by (cases a; cases b) auto

text \<open>
  What \<^const>\<open>classifyChanged\<close> does detect: a change of one of the four switches, of the
  script, or of the length of a keyword list.
\<close>

lemma classifyChanged_Some:
  "classifyChanged (Some a) (Some b) \<longleftrightarrow>
     KeywordEnabled a \<noteq> KeywordEnabled b \<or> AIEnabled a \<noteq> AIEnabled b \<or>
     WhitelistMode a \<noteq> WhitelistMode b \<or> ScriptFilterEnabled a \<noteq> ScriptFilterEnabled b \<or>
     ScriptFilterContent a \<noteq> ScriptFilterContent b \<or>
     length (FilterKeywords a) \<noteq> length (FilterKeywords b) \<or>
     length (KeepKeywords a) \<noteq> length (KeepKeywords b)"
  unfolding classifyChanged_def if_then_True opt_differs
  by simp

text \<open>
  Claim C5 says that on reload a source is affected iff it is new or a content-affecting
  field changed, and that any change of the classification strategy, such as the text of
  a filter keyword with the list length unchanged or the category whitelist, marks it
  affected. The code does not do that: for the source \<open>u\<close> whose filter keyword changes
  from \<open>ad\<close> to \<open>spam\<close>, and for the source \<open>v\<close> whose category whitelist changes from
  empty to \<open>tech\<close>, the strategies differ and \<^const>\<open>collectAffectedUrls\<close> returns no URL.
\<close>

theorem reload_misses_strategy_change:
  "Classify (sourceWith ''u'' [] (Some (strategyWith [''ad''] [] [])) 0 False)
     \<noteq> Classify (sourceWith ''u'' [] (Some (strategyWith [''spam''] [] [])) 0 False)
   \<and> Classify (sourceWith ''v'' [] (Some (strategyWith [] [] [])) 0 False)
     \<noteq> Classify (sourceWith ''v'' [] (Some (strategyWith [] [''tech''] [])) 0 False)
   \<and> collectAffectedUrls
       (configWith [sourceWith ''u'' [] (Some (strategyWith [''ad''] [] [])) 0 False,
                    sourceWith ''v'' [] (Some (strategyWith [] [] [])) 0 False]
                   (aiConfigWith False 0 0))
       (configWith [sourceWith ''u'' [] (Some (strategyWith [''spam''] [] [])) 0 False,
                    sourceWith ''v'' [] (Some (strategyWith [] [''tech''] [])) 0 False]
                   (aiConfigWith False 0 0))
     = {}"
  by (simp add: collectAffectedUrls_def oldSourcesMap_def sourceChanged_def
      classifyChanged_Some postProcessChanged_def configWith_def sourceWith_def strategyWith_def)

section \<open>Properties of the retained-items cache\<close>

lemma linkFresh_insert:
  "(linkFresh S y \<and> Link y \<noteq> Link x) = linkFresh (insert (Link x) S) y"
  by (auto simp: linkFresh_def)

lemma dedupByLink_Cons_fresh:
  "dedupByLink (x # filter (linkFresh S) xs)
     = x # dedupByLink (filter (linkFresh (insert (Link x) S)) xs)"
  by (simp add: linkFresh_insert)

lemma image_fresh_insert:
  "insert (Link x) (S \<union> Link ` set (filter (linkFresh (insert (Link x) S)) xs))
     = insert (Link x) (S \<union> Link ` set (filter (linkFresh S) xs))"
  by (auto simp: linkFresh_def)

lemma uniqueNewItems_closed:
  "uniqueNewItems xs acc S =
     (acc @ dedupByLink (filter (linkFresh S) xs), S \<union> Link ` set (filter (linkFresh S) xs))"
proof (induction xs arbitrary: acc S)
  case Nil
  then show ?case by simp
next
  case (Cons x xs)
  show ?case
  proof (cases "linkFresh S x")
    case True
    then have fr: "Link x \<noteq> [] \<and> Link x \<notin> S" by (simp add: linkFresh_def)
    have "uniqueNewItems (x # xs) acc S = uniqueNewItems xs (acc @ [x]) (insert (Link x) S)"
      using fr by simp
    also have "\<dots> = ((acc @ [x]) @ dedupByLink (filter (linkFresh (insert (Link x) S)) xs),
                     insert (Link x) S \<union> Link ` set (filter (linkFresh (insert (Link x) S)) xs))"
      by (rule Cons.IH)
    also have "\<dots> = (acc @ dedupByLink (filter (linkFresh S) (x # xs)),
                     S \<union> Link ` set (filter (linkFresh S) (x # xs)))"
      using True image_fresh_insert[of x S xs] dedupByLink_Cons_fresh[of x S xs]
      by (simp del: dedupByLink.simps)
    finally show ?thesis .
  next
    case False
    then have "\<not> (Link x \<noteq> [] \<and> Link x \<notin> S)" by (simp add: linkFresh_def)
    then have "uniqueNewItems (x # xs) acc S = uniqueNewItems xs acc S" by auto
    then show ?thesis using False Cons.IH[of acc S] by simp
  qed
qed

lemma appendCached_take:
  "0 \<le> n \<Longrightarrow>
   take (nat n) (appendCached cached merged S n)
     = take (nat n) (merged @ dedupByLink (filter (linkFresh S) cached))"
proof (induction cached arbitrary: merged S)
  case Nil
  then show ?case by simp
next
  case (Cons c cached)
  let ?F = "dedupByLink (filter (linkFresh (insert (Link c) S)) cached)"
  show ?case
  proof (cases "linkFresh S c")
    case True
    then have fr: "Link c \<noteq> [] \<and> Link c \<notin> S" by (simp add: linkFresh_def)
    have rhs: "dedupByLink (filter (linkFresh S) (c # cached)) = c # ?F"
      using True dedupByLink_Cons_fresh[of c S cached] by (simp del: dedupByLink.simps)
    show ?thesis
    proof (cases "int (length (merged @ [c])) \<ge> n")
      case full: True
      then have le: "nat n \<le> length (merged @ [c])" by simp
      have "appendCached (c # cached) merged S n = merged @ [c]"
        using fr full by (simp add: Let_def)
      moreover have "take (nat n) ((merged @ [c]) @ ?F) = take (nat n) (merged @ [c])"
        using le by (simp del: append_assoc)
      ultimately show ?thesis unfolding rhs by simp
    next
      case False
      then have "appendCached (c # cached) merged S n
                 = appendCached cached (merged @ [c]) (insert (Link c) S) n"
        using fr by (simp add: Let_def)
      then show ?thesis
        unfolding rhs using Cons.IH[OF Cons.prems, of "merged @ [c]" "insert (Link c) S"] by simp
    qed
  next
    case False
    then have nfr: "\<not> (Link c \<noteq> [] \<and> Link c \<notin> S)" by (simp add: linkFresh_def)
    have rhs: "dedupByLink (filter (linkFresh S) (c # cached)) = dedupByLink (filter (linkFresh S) cached)"
      using False by simp
    show ?thesis
    proof (cases "int (length merged) \<ge> n")
      case full: True
      have "appendCached (c # cached) merged S n = merged"
        using nfr full by (auto simp: Let_def)
      then show ?thesis using full by simp
    next
      case nf: False
      have "appendCached (c # cached) merged S n = appendCached cached merged S n"
        using nfr nf by (auto simp: Let_def)
      then show ?thesis unfolding rhs using Cons.IH[OF Cons.prems, of merged S] by simp
    qed
  qed
qed

lemma set_dedupByLink_subset: "set (dedupByLink xs) \<subseteq> set xs"
proof (induction xs rule: dedupByLink.induct)
  case 1 show ?case by simp
next
  case (2 x xs)
  have "set (dedupByLink (filter (\<lambda>y. Link y \<noteq> Link x) xs)) \<subseteq> set xs"
    using 2 by fastforce
  then show ?case by auto
qed

lemma dedupByLink_no_link:
  "Link x \<notin> Link ` set xs \<Longrightarrow> Link x \<notin> Link ` set (dedupByLink xs)"
  using set_dedupByLink_subset[of xs] by blast

lemma distinct_dedupByLink: "distinct (map Link (dedupByLink xs))"
proof (induction xs rule: dedupByLink.induct)
  case 1 show ?case by simp
next
  case (2 x xs)
  have "Link x \<notin> Link ` set (filter (\<lambda>y. Link y \<noteq> Link x) xs)" by auto
  then have "Link x \<notin> Link ` set (dedupByLink (filter (\<lambda>y. Link y \<noteq> Link x) xs))"
    by (rule dedupByLink_no_link)
  with 2 show ?case by simp
qed

lemma linkFresh_empty: "linkFresh {} = (\<lambda>x. Link x \<noteq> [])"
  by (auto simp: linkFresh_def)

lemma filter_linkFresh_split:
  "filter (linkFresh S) xs = filter (\<lambda>c. Link c \<notin> S) (filter (\<lambda>x. Link x \<noteq> []) xs)"
  by (induction xs) (auto simp: linkFresh_def)

lemma map_Link_cachedItemToSave: "map Link (map cachedItemToSave xs) = map Link xs"
  by (simp add: cachedItemToSave_def)

lemma mergeWithCachedItems_closed:
  assumes "0 \<le> n"
  shows "mergeWithCachedItems cache url newItems n =
           (let merged = retainedSpec (filter (\<lambda>x. Link x \<noteq> []) newItems)
                           (filter (\<lambda>x. Link x \<noteq> []) (case cache url of None \<Rightarrow> [] | Some c \<Rightarrow> c))
                           (nat n)
            in Inr (merged, cache(url \<mapsto> map cachedItemToSave merged)))"
proof -
  let ?new = "filter (\<lambda>x. Link x \<noteq> []) newItems"
  let ?D = "dedupByLink ?new"
  let ?S = "Link ` set ?new"
  have u: "uniqueNewItems newItems [] {} = (?D, ?S)"
    by (simp add: uniqueNewItems_closed linkFresh_empty)
  have trunc: "(if int (length m) > n then take (nat n) m else m) = take (nat n) m" for m :: "Item list"
    using assms by auto
  show ?thesis
  proof (cases "cache url")
    case None
    then show ?thesis
      using assms
      by (simp add: mergeWithCachedItems_def u GetItemsCache_def SetItemsCache_def trunc
          retainedSpec_def Let_def del: dedupByLink.simps(2) take_append)
  next
    case (Some cached)
    have "take (nat n) (appendCached cached ?D ?S n)
          = take (nat n) (?D @ dedupByLink (filter (\<lambda>c. Link c \<notin> ?S) (filter (\<lambda>x. Link x \<noteq> []) cached)))"
      using appendCached_take[OF assms, of cached ?D ?S] filter_linkFresh_split[of ?S cached]
      by (simp only:)
    then show ?thesis
      using assms Some
      by (simp add: mergeWithCachedItems_def u GetItemsCache_def SetItemsCache_def trunc
          retainedSpec_def Let_def del: dedupByLink.simps(2) take_append)
  qed
qed

lemma distinct_links_retainedSpec: "distinct (map Link (retainedSpec newItems cachedItems cap))"
proof -
  let ?F = "dedupByLink (filter (\<lambda>c. Link c \<notin> Link ` set newItems) cachedItems)"
  have "set ?F \<subseteq> set (filter (\<lambda>c. Link c \<notin> Link ` set newItems) cachedItems)"
    by (rule set_dedupByLink_subset)
  then have a: "Link ` set ?F \<inter> Link ` set newItems = {}" by auto
  have "Link ` set (dedupByLink newItems) \<subseteq> Link ` set newItems"
    using set_dedupByLink_subset[of newItems] by blast
  with a have "Link ` set (dedupByLink newItems) \<inter> Link ` set ?F = {}" by blast
  then have "distinct (map Link (dedupByLink newItems @ ?F))"
    by (simp add: distinct_dedupByLink del: dedupByLink.simps)
  then have "distinct (take cap (map Link (dedupByLink newItems @ ?F)))"
    by (rule distinct_take)
  then show ?thesis
    unfolding retainedSpec_def take_map .
qed

lemma length_retainedSpec: "length (retainedSpec newItems cachedItems cap) \<le> cap"
  by (simp add: retainedSpec_def)

text \<open>
  Claim C2, as amended. For a merge step with cap \<open>n > 0\<close>, the list returned, whose
  projection is written to the retained cache of the source, is the first \<open>n\<close> entries
  of: the new filtered items that have a non-empty link, deduplicated by link, followed by
  the previously retained items that have a non-empty link not present in the new set,
  deduplicated. So the cache written has at most \<open>n\<close> entries and no two entries with the
  same link. A configured cap of 0 makes the effective cap the number of filtered items.
\<close>

theorem retained_cache_bounded_distinct:
  "(0 < n \<longrightarrow>
      (\<exists>merged.
         mergeWithCachedItems cache url newItems n
           = Inr (merged, cache(url \<mapsto> map cachedItemToSave merged)) \<and>
         merged = retainedSpec (filter (\<lambda>x. Link x \<noteq> []) newItems)
                    (filter (\<lambda>x. Link x \<noteq> []) (case cache url of None \<Rightarrow> [] | Some c \<Rightarrow> c))
                    (nat n) \<and>
         int (length (map cachedItemToSave merged)) \<le> n \<and>
         distinct (map Link (map cachedItemToSave merged))))
   \<and> (GetCacheItems srcs url = 0 \<longrightarrow>
        effectiveCacheItems srcs url filteredItems = int (length filteredItems))
   \<and> (GetCacheItems srcs url \<noteq> 0 \<longrightarrow>
        effectiveCacheItems srcs url filteredItems = GetCacheItems srcs url)"
proof (intro conjI impI)
  assume n: "0 < n"
  let ?merged = "retainedSpec (filter (\<lambda>x. Link x \<noteq> []) newItems)
                    (filter (\<lambda>x. Link x \<noteq> []) (case cache url of None \<Rightarrow> [] | Some c \<Rightarrow> c))
                    (nat n)"
  have "mergeWithCachedItems cache url newItems n
          = Inr (?merged, cache(url \<mapsto> map cachedItemToSave ?merged))"
    using mergeWithCachedItems_closed[of n cache url newItems] n by (simp add: Let_def)
  moreover have "int (length (map cachedItemToSave ?merged)) \<le> n"
    using length_retainedSpec[of "filter (\<lambda>x. Link x \<noteq> []) newItems"
        "filter (\<lambda>x. Link x \<noteq> []) (case cache url of None \<Rightarrow> [] | Some c \<Rightarrow> c)" "nat n"] n
    unfolding length_map by linarith
  moreover have "distinct (map Link (map cachedItemToSave ?merged))"
    unfolding map_Link_cachedItemToSave by (rule distinct_links_retainedSpec)
  ultimately show "\<exists>merged.
         mergeWithCachedItems cache url newItems n
           = Inr (merged, cache(url \<mapsto> map cachedItemToSave merged)) \<and>
         merged = ?merged \<and>
         int (length (map cachedItemToSave merged)) \<le> n \<and>
         distinct (map Link (map cachedItemToSave merged))"
    by blast
next
  assume "GetCacheItems srcs url = 0"
  then show "effectiveCacheItems srcs url filteredItems = int (length filteredItems)"
    by (simp add: effectiveCacheItems_def)
next
  assume "GetCacheItems srcs url \<noteq> 0"
  then show "effectiveCacheItems srcs url filteredItems = GetCacheItems srcs url"
    by (simp add: effectiveCacheItems_def)
qed

theorem retained_cache_bounded_distinct_witness:
  "mergeWithCachedItems [''u'' \<mapsto> [itemWith ''old'' ''b'' [], itemWith ''older'' ''c'' []]] ''u''
      [itemWith ''t'' ''a'' [], itemWith ''t2'' ''a'' []] 2
     = Inr ([itemWith ''t'' ''a'' [], itemWith ''old'' ''b'' []],
            [''u'' \<mapsto> [itemWith ''t'' ''a'' [], itemWith ''old'' ''b'' []]])
   \<and> effectiveCacheItems [sourceWith ''u'' [] None 0 False] ''u''
        [itemWith ''t'' ''a'' [], itemWith ''t2'' ''a'' []] = 2
   \<and> effectiveCacheItems [sourceWith ''u'' [] None 7 False] ''u''
        [itemWith ''t'' ''a'' [], itemWith ''t2'' ''a'' []] = 7"
  using retained_cache_bounded_distinct
    [of 2 "[''u'' \<mapsto> [itemWith ''old'' ''b'' [], itemWith ''older'' ''c'' []]]" "''u''"
        "[itemWith ''t'' ''a'' [], itemWith ''t2'' ''a'' []]"
        "[sourceWith ''u'' [] None 0 False]" "[itemWith ''t'' ''a'' [], itemWith ''t2'' ''a'' []]"]
    retained_cache_bounded_distinct
    [of 2 "[''u'' \<mapsto> [itemWith ''old'' ''b'' [], itemWith ''older'' ''c'' []]]" "''u''"
        "[itemWith ''t'' ''a'' [], itemWith ''t2'' ''a'' []]"
        "[sourceWith ''u'' [] None 7 False]" "[itemWith ''t'' ''a'' [], itemWith ''t2'' ''a'' []]"]
  by (simp add: retainedSpec_def itemWith_def sourceWith_def cachedItemToSave_def)

text \<open>
  Claim C2 as stated says the cache consists of the deduplicated new filtered items
  followed by retained ones. A new item with an empty link is no duplicate of anything,
  yet the merge drops it: with that item alone, cap 1 and no cache, the cache written is
  empty, while the deduplicated new list holds the item.
\<close>

theorem retained_cache_drops_empty_link_counterexample:
  "mergeWithCachedItems Map.empty ''u'' [itemWith ''t'' [] []] 1 = Inr ([], [''u'' \<mapsto> []])
   \<and> retainedSpec [itemWith ''t'' [] []] [] 1 = [itemWith ''t'' [] []]"
  by (simp add: mergeWithCachedItems_def GetItemsCache_def SetItemsCache_def retainedSpec_def
      itemWith_def)

section \<open>Properties of the script filter\<close>

text \<open>
  Claim C9. For a run of the script filter (the item list is non-empty and was
  serialised), a timeout, a non-zero exit, or output that is non-blank and parses neither
  as a JSON array nor as lines of JSON objects returns the list given, unchanged, together
  with an error; a successful run whose output is empty (or blank) returns the empty list
  and no error.
\<close>

theorem script_filter_fail_open:
  "items \<noteq> [] \<and> marshalItems env items = Some itemsJSON \<longrightarrow>
     (runBash env (GetTimeout aiConfig) script itemsJSON = DeadlineExceeded \<longrightarrow>
        ApplyScriptFilter env aiConfig items script
          = (items, Some (ScriptTimeout (GetTimeout aiConfig))))
   \<and> (runBash env (GetTimeout aiConfig) script itemsJSON = ExitError stderr \<longrightarrow>
        ApplyScriptFilter env aiConfig items script = (items, Some (ScriptExitFailed stderr)))
   \<and> (runBash env (GetTimeout aiConfig) script itemsJSON = Completed output \<and>
      TrimSpace env output \<noteq> [] \<and> unmarshalItems env output = None \<and>
      parseJSONLines env (splitLines (TrimSpace env output)) [] \<in> {None, Some []} \<longrightarrow>
        ApplyScriptFilter env aiConfig items script = (items, Some (ParseOutputFailed output)))
   \<and> (runBash env (GetTimeout aiConfig) script itemsJSON = Completed output \<and>
      TrimSpace env output = [] \<longrightarrow>
        ApplyScriptFilter env aiConfig items script = ([], None))
   \<and> (runBash env (GetTimeout aiConfig) script itemsJSON = Completed [] \<and>
      TrimSpace env [] = [] \<longrightarrow>
        ApplyScriptFilter env aiConfig items script = ([], None))"
  by (auto simp: ApplyScriptFilter_def Let_def)

theorem script_filter_fail_open_witness:
  "ApplyScriptFilter exampleScriptEnv (aiConfigWith False 0 0) [itemWith ''t'' ''a'' []] ''slow''
     = ([itemWith ''t'' ''a'' []], Some (ScriptTimeout 30))
   \<and> ApplyScriptFilter exampleScriptEnv (aiConfigWith False 0 0) [itemWith ''t'' ''a'' []] ''fail''
     = ([itemWith ''t'' ''a'' []], Some (ScriptExitFailed ''boom''))
   \<and> ApplyScriptFilter exampleScriptEnv (aiConfigWith False 0 0) [itemWith ''t'' ''a'' []] ''junk''
     = ([itemWith ''t'' ''a'' []], Some (ParseOutputFailed ''garbage''))
   \<and> ApplyScriptFilter exampleScriptEnv (aiConfigWith False 0 0) [itemWith ''t'' ''a'' []] ''true''
     = ([], None)"
  using script_filter_fail_open
    [of "[itemWith ''t'' ''a'' []]" exampleScriptEnv "''[]''" "aiConfigWith False 0 0" "''slow''" "[]" "[]"]
    script_filter_fail_open
    [of "[itemWith ''t'' ''a'' []]" exampleScriptEnv "''[]''" "aiConfigWith False 0 0" "''fail''" "''boom''" "[]"]
    script_filter_fail_open
    [of "[itemWith ''t'' ''a'' []]" exampleScriptEnv "''[]''" "aiConfigWith False 0 0" "''junk''" "[]" "''garbage''"]
    script_filter_fail_open
    [of "[itemWith ''t'' ''a'' []]" exampleScriptEnv "''[]''" "aiConfigWith False 0 0" "''true''" "[]" "[]"]
  by (simp add: exampleScriptEnv_def GetTimeout_def aiConfigWith_def)

section \<open>Properties of the classification pipeline\<close>

lemma retryLoop_zero: "retryLoop call attempt 0 r = r"
  by simp

lemma processBatch_no_attempt:
  "maxRetries \<le> 0 \<Longrightarrow> tasks \<noteq> [] \<Longrightarrow> processBatch llm maxRetries tasks st = Inl NilPointerDereference"
  by (simp add: processBatch_def)

lemma runBatches_first_panics:
  "processBatch llm maxRetries tasks st = Inl p \<Longrightarrow> runBatches llm maxRetries (tasks # rest) st = Inl p"
  by simp

lemma batchesOf_nonempty:
  assumes "pendingTasks \<noteq> []" "0 < batchSize"
  shows "\<exists>tasks rest. batchesOf batchSize pendingTasks = tasks # rest \<and> tasks \<noteq> []"
proof -
  let ?n = "(length pendingTasks + batchSize - 1) div batchSize"
  have "length pendingTasks + batchSize - 1 \<ge> batchSize" using assms by (cases pendingTasks) auto
  then have "0 < ?n" using assms(2) by (simp add: div_greater_zero_iff)
  then have "?n \<ge> 1" by simp
  then have up: "[0..<?n] = 0 # [1..<?n]" by (simp add: upt_conv_Cons)
  show ?thesis
    unfolding batchesOf_def Let_def up using assms by simp
qed

text \<open>
  Claim C10. With a negative configured retry count \<^const>\<open>GetRetryCount\<close> is 0. Then the
  retry loop of a batch worker makes no attempt and leaves response and error nil, and the
  worker, for a non-empty batch, panics on the nil response. So \<^const>\<open>ClassifyItems\<close>
  panics for every source that uses the model, has a category to offer and has at least one
  item that neither the cache nor the keywords resolve, whatever the model would answer.
\<close>

theorem negative_retry_count_nil_dereference:
  "RetryCount (AIClassify config) < 0 \<longrightarrow>
     GetRetryCount (AIClassify config) = 0
   \<and> (tasks \<noteq> [] \<longrightarrow>
        retryLoop (llm tasks) 1 (nat (GetRetryCount (AIClassify config))) (None, None) = (None, None)
        \<and> processBatch llm (GetRetryCount (AIClassify config)) tasks st = Inl NilPointerDereference)
   \<and> (ShouldUseAI config rssURL
      \<and> availableCategories config (getClassifyStrategy (Sources config) rssURL) \<noteq> []
      \<and> fst (snd (cacheAndKeywords toLower (getClassifyStrategy (Sources config) rssURL) cache
                     (zip [0..<length items] items) (items, [], 0))) \<noteq> [] \<longrightarrow>
        ClassifyItems env toLower llm config cache items rssURL = Inl NilPointerDereference)"
proof (intro impI conjI)
  assume neg: "RetryCount (AIClassify config) < 0"
  then show z: "GetRetryCount (AIClassify config) = 0" by (simp add: GetRetryCount_def)
  {
    assume "tasks \<noteq> []"
    then show "retryLoop (llm tasks) 1 (nat (GetRetryCount (AIClassify config))) (None, None) = (None, None)"
      and "processBatch llm (GetRetryCount (AIClassify config)) tasks st = Inl NilPointerDereference"
      using z by (simp_all add: processBatch_def)
  }
  assume h: "ShouldUseAI config rssURL
      \<and> availableCategories config (getClassifyStrategy (Sources config) rssURL) \<noteq> []
      \<and> fst (snd (cacheAndKeywords toLower (getClassifyStrategy (Sources config) rssURL) cache
                     (zip [0..<length items] items) (items, [], 0))) \<noteq> []"
  obtain finalItems pendingTasks cacheHits where
    ck: "cacheAndKeywords toLower (getClassifyStrategy (Sources config) rssURL) cache
           (zip [0..<length items] items) (items, [], 0) = (finalItems, pendingTasks, cacheHits)"
    by (cases "cacheAndKeywords toLower (getClassifyStrategy (Sources config) rssURL) cache
           (zip [0..<length items] items) (items, [], 0)") auto
  with h have pend: "pendingTasks \<noteq> []" by simp
  have bs: "0 < nat (GetBatchSize (AIClassify config))" by (simp add: GetBatchSize_def)
  obtain tasks' rest where b: "batchesOf (nat (GetBatchSize (AIClassify config))) pendingTasks = tasks' # rest"
    and ne: "tasks' \<noteq> []"
    using batchesOf_nonempty[OF pend bs] by blast
  have "processBatch llm (GetRetryCount (AIClassify config)) tasks' (finalItems, cache, 0, 0)
          = Inl NilPointerDereference"
    using ne z by (simp add: processBatch_def)
  then have "runBatches llm (GetRetryCount (AIClassify config))
               (batchesOf (nat (GetBatchSize (AIClassify config))) pendingTasks) (finalItems, cache, 0, 0)
             = Inl NilPointerDereference"
    unfolding b by simp
  then show "ClassifyItems env toLower llm config cache items rssURL = Inl NilPointerDereference"
    using h ck pend by (simp add: ClassifyItems_def Let_def)
qed

theorem negative_retry_count_nil_dereference_witness:
  "RetryCount (AIClassify (configWith
       [sourceWith ''u'' [] (Some ((strategyWith [] [] [])\<lparr>AIEnabled := Some True\<rparr>)) 0 False]
       (aiConfigWith True 0 (- 1)))) < 0
   \<and> processBatch (\<lambda>tasks attempt. Inr Map.empty)
        (GetRetryCount (AIClassify (configWith
           [sourceWith ''u'' [] (Some ((strategyWith [] [] [])\<lparr>AIEnabled := Some True\<rparr>)) 0 False]
           (aiConfigWith True 0 (- 1)))))
        [(0, itemWith ''t'' ''a'' [])]
        ([itemWith ''t'' ''a'' []], Map.empty, 0, 0) = Inl NilPointerDereference
   \<and> ClassifyItems exampleScriptEnv (\<lambda>s. s) (\<lambda>tasks attempt. Inr Map.empty)
        (configWith [sourceWith ''u'' [] (Some ((strategyWith [] [] [])\<lparr>AIEnabled := Some True\<rparr>)) 0 False]
                    (aiConfigWith True 0 (- 1)))
        Map.empty [itemWith ''t'' ''a'' []] ''u''
      = Inl NilPointerDereference"
proof -
  let ?cfg = "configWith
       [sourceWith ''u'' [] (Some ((strategyWith [] [] [])\<lparr>AIEnabled := Some True\<rparr>)) 0 False]
       (aiConfigWith True 0 (- 1))"
  have h1: "RetryCount (AIClassify ?cfg) < 0"
    by (simp add: configWith_def aiConfigWith_def)
  have s: "getClassifyStrategy (Sources ?cfg) ''u''
             = Some ((strategyWith [] [] [])\<lparr>AIEnabled := Some True\<rparr>)"
    by (simp add: configWith_def sourceWith_def)
  have h2: "ShouldUseAI ?cfg ''u''"
    unfolding ShouldUseAI_def s
    by (simp add: configWith_def aiConfigWith_def strategyWith_def IsAIEnabled_def)
  have h3: "availableCategories ?cfg (getClassifyStrategy (Sources ?cfg) ''u'') \<noteq> []"
    unfolding s
    by (simp add: availableCategories_def GetCategories_def configWith_def aiConfigWith_def
        strategyWith_def)
  have h4: "fst (snd (cacheAndKeywords (\<lambda>s. s) (getClassifyStrategy (Sources ?cfg) ''u'') Map.empty
                     (zip [0..<length [itemWith ''t'' ''a'' []]] [itemWith ''t'' ''a'' []])
                     ([itemWith ''t'' ''a'' []], [], 0))) \<noteq> []"
    unfolding s
    by (simp add: keywordCategory_def strategyWith_def IsWhitelistMode_def IsKeywordEnabled_def)
  have h5: "[(0 :: nat, itemWith ''t'' ''a'' [])] \<noteq> []" by simp
  show ?thesis
    using negative_retry_count_nil_dereference
      [of ?cfg "[(0, itemWith ''t'' ''a'' [])]" "\<lambda>tasks attempt. Inr Map.empty"
          "([itemWith ''t'' ''a'' []], Map.empty, 0, 0)" "''u''" "\<lambda>s. s" Map.empty
          "[itemWith ''t'' ''a'' []]" exampleScriptEnv]
      h1 h2 h3 h4 h5
    by blast
qed

lemma retryLoop_all_fail:
  "0 < n \<Longrightarrow> (\<forall>k. a \<le> k \<and> k < a + n \<longrightarrow> isl (call k)) \<Longrightarrow>
   \<exists>e. retryLoop call a n r = (None, Some e)"
proof (induction n arbitrary: a r)
  case 0
  then show ?case by simp
next
  case (Suc m)
  from Suc.prems(2) have "isl (call a)" by simp
  then obtain e where e: "call a = Inl e" by (cases "call a") auto
  show ?case
  proof (cases m)
    case 0
    with e show ?thesis by simp
  next
    case (Suc m')
    have "\<forall>k. Suc a \<le> k \<and> k < Suc a + m \<longrightarrow> isl (call k)" using Suc.prems(2) by simp
    then obtain e' where "retryLoop call (Suc a) m (None, Some e) = (None, Some e')"
      using Suc.IH[of "Suc a" "(None, Some e)"] Suc by auto
    with e show ?thesis by simp
  qed
qed

lemma processBatch_all_fail:
  assumes "0 < maxRetries" "\<forall>k. 1 \<le> k \<and> k \<le> nat maxRetries \<longrightarrow> isl (llm tasks k)"
  shows "processBatch llm maxRetries tasks (finalItems, cache, newItems, failedItems)
           = Inr (finalItems, cache, newItems, failedItems + length tasks)"
proof -
  have "\<exists>e. retryLoop (llm tasks) 1 (nat maxRetries) (None, None) = (None, Some e)"
    using assms by (intro retryLoop_all_fail) auto
  then show ?thesis by (auto simp: processBatch_def)
qed

lemma applyResults_shape:
  "applyResults results tasks (fi, c, n, f) = (fi', c', n', f') \<Longrightarrow>
   length fi' = length fi \<and>
   f' = f + length (filter (\<lambda>t. results (itoa (fst t)) = None) tasks) \<and>
   n' = n + length (filter (\<lambda>t. results (itoa (fst t)) \<noteq> None) tasks)"
proof (induction tasks arbitrary: fi c n f)
  case Nil
  then show ?case by simp
next
  case (Cons t tasks)
  obtain i item where t: "t = (i, item)" by (cases t)
  show ?case
  proof (cases "results (itoa i)")
    case None
    with Cons.prems t have "applyResults results tasks (fi, c, n, f + 1) = (fi', c', n', f')" by simp
    from Cons.IH[OF this] None t show ?thesis by simp
  next
    case (Some cat)
    with Cons.prems t have "applyResults results tasks
        (fi[i := (fi ! i)\<lparr>Category := cat\<rparr>], c(Link (fi ! i) \<mapsto> cat), n + 1, f) = (fi', c', n', f')"
      by simp
    from Cons.IH[OF this] Some t show ?thesis by simp
  qed
qed

lemma applyResults_missing_unchanged:
  "\<forall>t \<in> set tasks. fst t = idx \<longrightarrow> results (itoa (fst t)) = None \<Longrightarrow>
   fst (applyResults results tasks (fi, c, n, f)) ! idx = fi ! idx"
proof (induction tasks arbitrary: fi c n f)
  case Nil
  then show ?case by simp
next
  case (Cons t tasks)
  obtain i item where t: "t = (i, item)" by (cases t)
  show ?case
  proof (cases "results (itoa i)")
    case None
    with Cons t show ?thesis by simp
  next
    case (Some cat)
    with Cons.prems t have "i \<noteq> idx" by auto
    with Cons t Some show ?thesis by simp
  qed
qed

lemma applyCategoryFilter_unclassified:
  "Category item = [] \<Longrightarrow>
   item \<in> set (applyCategoryFilter items (Some s)) \<longleftrightarrow>
     item \<in> set items \<and>
     (if CategoryWhitelist s \<noteq> [] then [] \<in> set (CategoryWhitelist s)
      else [] \<notin> set (CategoryBlacklist s))"
  by (auto simp: applyCategoryFilter_def)

lemma applyCategoryFilter_keep:
  "Category item = ''_keep'' \<Longrightarrow>
   item \<in> set (applyCategoryFilter items strategy) \<longleftrightarrow> item \<in> set items"
  by (auto simp: applyCategoryFilter_def split: option.splits)

lemma itoa_0: "itoa 0 = ''0''"
  by code_simp

lemma itoa_1: "itoa (Suc 0) = ''1''"
  by code_simp

lemma itoa_12: "itoa 12 = ''12''"
  by code_simp

text \<open>
  Claim C8, as amended. When a batch makes at least one attempt and every attempt fails,
  all its items are counted as failed and \<^verbatim>\<open>finalItems\<close> and the cache stay as they were.
  When a response arrives, each task whose index is missing from its map is counted as
  failed and its item is left as it was; no item is removed by the stage. An item with an
  empty category then passes the category filter when no whitelist is configured and the
  blacklist does not hold the empty category, and is dropped when a non-empty whitelist
  that does not hold the empty category is configured. An item marked \<open>_keep\<close> always
  passes the category filter.
\<close>

theorem failed_items_stay_unclassified:
  "(0 < maxRetries \<and> (\<forall>k. 1 \<le> k \<and> k \<le> nat maxRetries \<longrightarrow> isl (llm tasks k)) \<longrightarrow>
      processBatch llm maxRetries tasks (finalItems, cache, newItems, failedItems)
        = Inr (finalItems, cache, newItems, failedItems + length tasks))
   \<and> (tasks \<noteq> [] \<and> retryLoop (llm tasks) 1 (nat maxRetries) (None, None) = (Some results, None) \<longrightarrow>
        (\<exists>finalItems' cache' newItems'.
           processBatch llm maxRetries tasks (finalItems, cache, newItems, failedItems)
             = Inr (finalItems', cache', newItems',
                    failedItems + length (filter (\<lambda>t. results (itoa (fst t)) = None) tasks))
           \<and> length finalItems' = length finalItems
           \<and> (\<forall>idx. (\<forall>t \<in> set tasks. fst t = idx \<longrightarrow> results (itoa (fst t)) = None) \<longrightarrow>
                  finalItems' ! idx = finalItems ! idx)))
   \<and> (Category item = [] \<and> CategoryWhitelist s = [] \<and> [] \<notin> set (CategoryBlacklist s) \<longrightarrow>
        (item \<in> set (applyCategoryFilter items (Some s)) \<longleftrightarrow> item \<in> set items))
   \<and> (Category item = [] \<and> CategoryWhitelist s \<noteq> [] \<and> [] \<notin> set (CategoryWhitelist s) \<longrightarrow>
        item \<notin> set (applyCategoryFilter items (Some s)))
   \<and> (Category item = ''_keep'' \<longrightarrow>
        (item \<in> set (applyCategoryFilter items (Some s)) \<longleftrightarrow> item \<in> set items))"
proof (intro conjI impI)
  assume "0 < maxRetries \<and> (\<forall>k. 1 \<le> k \<and> k \<le> nat maxRetries \<longrightarrow> isl (llm tasks k))"
  then show "processBatch llm maxRetries tasks (finalItems, cache, newItems, failedItems)
        = Inr (finalItems, cache, newItems, failedItems + length tasks)"
    using processBatch_all_fail by blast
next
  assume h: "tasks \<noteq> [] \<and> retryLoop (llm tasks) 1 (nat maxRetries) (None, None) = (Some results, None)"
  obtain fi' c' n' f' where a: "applyResults results tasks (finalItems, cache, newItems, failedItems) = (fi', c', n', f')"
    by (cases "applyResults results tasks (finalItems, cache, newItems, failedItems)") auto
  have p: "processBatch llm maxRetries tasks (finalItems, cache, newItems, failedItems) = Inr (fi', c', n', f')"
    using h a by (simp add: processBatch_def)
  have u: "\<forall>idx. (\<forall>t \<in> set tasks. fst t = idx \<longrightarrow> results (itoa (fst t)) = None) \<longrightarrow>
             fi' ! idx = finalItems ! idx"
    using applyResults_missing_unchanged[of tasks _ results finalItems cache newItems failedItems] a
    by auto
  from applyResults_shape[OF a] p u
  show "\<exists>finalItems' cache' newItems'.
           processBatch llm maxRetries tasks (finalItems, cache, newItems, failedItems)
             = Inr (finalItems', cache', newItems',
                    failedItems + length (filter (\<lambda>t. results (itoa (fst t)) = None) tasks))
           \<and> length finalItems' = length finalItems
           \<and> (\<forall>idx. (\<forall>t \<in> set tasks. fst t = idx \<longrightarrow> results (itoa (fst t)) = None) \<longrightarrow>
                  finalItems' ! idx = finalItems ! idx)"
    by blast
next
  assume "Category item = [] \<and> CategoryWhitelist s = [] \<and> [] \<notin> set (CategoryBlacklist s)"
  then show "item \<in> set (applyCategoryFilter items (Some s)) \<longleftrightarrow> item \<in> set items"
    by (simp add: applyCategoryFilter_unclassified)
next
  assume "Category item = [] \<and> CategoryWhitelist s \<noteq> [] \<and> [] \<notin> set (CategoryWhitelist s)"
  then show "item \<notin> set (applyCategoryFilter items (Some s))"
    by (simp add: applyCategoryFilter_unclassified)
next
  assume "Category item = ''_keep''"
  then show "item \<in> set (applyCategoryFilter items (Some s)) \<longleftrightarrow> item \<in> set items"
    by (rule applyCategoryFilter_keep)
qed

text \<open>
  Claim C8 as stated says an unclassified item is dropped once a non-empty category
  whitelist is configured. The whitelist is looked up with the item's category, so a
  whitelist that holds the empty string keeps the unclassified item.
\<close>

theorem unclassified_item_passes_whitelist_counterexample:
  "CategoryWhitelist (strategyWith [] [[]] []) \<noteq> []
   \<and> Category (itemWith ''t'' ''a'' []) = []
   \<and> applyCategoryFilter [itemWith ''t'' ''a'' []] (Some (strategyWith [] [[]] []))
       = [itemWith ''t'' ''a'' []]"
  by (simp add: applyCategoryFilter_def strategyWith_def itemWith_def)

theorem failed_items_stay_unclassified_witness:
  "processBatch (\<lambda>tasks attempt. Inl ''timeout'') 3
       [(0, itemWith ''t'' ''a'' []), (1, itemWith ''t2'' ''b'' [])]
       ([itemWith ''t'' ''a'' [], itemWith ''t2'' ''b'' []], Map.empty, 0, 0)
     = Inr ([itemWith ''t'' ''a'' [], itemWith ''t2'' ''b'' []], Map.empty, 0, 2)
   \<and> processBatch (\<lambda>tasks attempt. if attempt < 2 then Inl ''timeout'' else Inr [''0'' \<mapsto> ''tech'']) 3
       [(0, itemWith ''t'' ''a'' []), (1, itemWith ''t2'' ''b'' [])]
       ([itemWith ''t'' ''a'' [], itemWith ''t2'' ''b'' []], Map.empty, 0, 0)
     = Inr ([itemWith ''t'' ''a'' ''tech'', itemWith ''t2'' ''b'' []], [''a'' \<mapsto> ''tech''], 1, 1)
   \<and> applyCategoryFilter [itemWith ''t'' ''a'' ''tech'', itemWith ''t2'' ''b'' []]
        (Some (strategyWith [] [] [''ads''])) = [itemWith ''t'' ''a'' ''tech'', itemWith ''t2'' ''b'' []]
   \<and> applyCategoryFilter [itemWith ''t'' ''a'' ''tech'', itemWith ''t2'' ''b'' []]
        (Some (strategyWith [] [''tech''] [])) = [itemWith ''t'' ''a'' ''tech'']
   \<and> applyCategoryFilter [itemWith ''t'' ''a'' ''_keep'', itemWith ''t2'' ''b'' []]
        (Some (strategyWith [] [''tech''] [])) = [itemWith ''t'' ''a'' ''_keep'']"
proof -
  let ?tasks = "[(0 :: nat, itemWith ''t'' ''a'' []), (1, itemWith ''t2'' ''b'' [])]"
  let ?fi = "[itemWith ''t'' ''a'' [], itemWith ''t2'' ''b'' []]"
  let ?llm = "\<lambda>(tasks :: classifyTask list) (attempt :: nat).
                 if attempt < 2 then Inl ''timeout'' else (Inr [''0'' \<mapsto> ''tech''] :: string + (string \<rightharpoonup> string))"
  have r: "retryLoop (?llm ?tasks) 1 (nat 3) (None, None) = (Some [''0'' \<mapsto> ''tech''], None)"
    by (simp add: numeral_3_eq_3)
  have a: "processBatch (\<lambda>tasks attempt. Inl ''timeout'') 3 ?tasks (?fi, Map.empty, 0, 0)
             = Inr (?fi, Map.empty, 0, 0 + length ?tasks)"
    using failed_items_stay_unclassified
      [of 3 "\<lambda>tasks attempt. Inl ''timeout''" ?tasks ?fi Map.empty 0 0]
    by simp
  have b: "processBatch ?llm 3 ?tasks (?fi, Map.empty, 0, 0)
             = Inr ([itemWith ''t'' ''a'' ''tech'', itemWith ''t2'' ''b'' []], [''a'' \<mapsto> ''tech''], 1, 1)"
    using failed_items_stay_unclassified
      [of 3 ?llm ?tasks ?fi Map.empty 0 0 "[''0'' \<mapsto> ''tech'']"] r
    by (simp add: processBatch_def itoa_0 itoa_1 itemWith_def)
  have c: "applyCategoryFilter [itemWith ''t'' ''a'' ''tech'', itemWith ''t2'' ''b'' []]
        (Some (strategyWith [] [] [''ads''])) = [itemWith ''t'' ''a'' ''tech'', itemWith ''t2'' ''b'' []]"
    using failed_items_stay_unclassified
      [of 3 ?llm ?tasks ?fi Map.empty 0 0 "[''0'' \<mapsto> ''tech'']" "itemWith ''t2'' ''b'' []"
          "strategyWith [] [] [''ads'']" "[itemWith ''t'' ''a'' ''tech'', itemWith ''t2'' ''b'' []]"]
    by (simp add: applyCategoryFilter_def strategyWith_def itemWith_def)
  have d: "applyCategoryFilter [itemWith ''t'' ''a'' ''tech'', itemWith ''t2'' ''b'' []]
        (Some (strategyWith [] [''tech''] [])) = [itemWith ''t'' ''a'' ''tech'']"
    using failed_items_stay_unclassified
      [of 3 ?llm ?tasks ?fi Map.empty 0 0 "[''0'' \<mapsto> ''tech'']" "itemWith ''t2'' ''b'' []"
          "strategyWith [] [''tech''] []" "[itemWith ''t'' ''a'' ''tech'', itemWith ''t2'' ''b'' []]"]
    by (simp add: applyCategoryFilter_def strategyWith_def itemWith_def)
  have e: "applyCategoryFilter [itemWith ''t'' ''a'' ''_keep'', itemWith ''t2'' ''b'' []]
        (Some (strategyWith [] [''tech''] [])) = [itemWith ''t'' ''a'' ''_keep'']"
    using failed_items_stay_unclassified
      [of 3 ?llm ?tasks ?fi Map.empty 0 0 "[''0'' \<mapsto> ''tech'']" "itemWith ''t'' ''a'' ''_keep''"
          "strategyWith [] [''tech''] []" "[itemWith ''t'' ''a'' ''_keep'', itemWith ''t2'' ''b'' []]"]
    by (simp add: applyCategoryFilter_def strategyWith_def itemWith_def)
  from a b c d e show ?thesis by simp
qed

section \<open>Properties of the update engine\<close>

lemma GetMaxItems_adoptTitle: "GetMaxItems (adoptTitle srcs u title) url = GetMaxItems srcs url"
  by (induction srcs) auto

lemma GetMaxItems_adoptFeedTitle:
  "GetMaxItems (Sources (adoptFeedTitle config u title)) url = GetMaxItems (Sources config) url"
  by (simp add: adoptFeedTitle_def GetMaxItems_adoptTitle)

lemma isChanged_same:
  assumes "map GLink checkItems = AllItemLinks prev" "map GTitle checkItems = AllItemTitles prev"
  shows "\<not> isChanged checkItems prev"
proof -
  have l1: "length (AllItemLinks prev) = length checkItems" using assms(1)[symmetric] by simp
  have l2: "length (AllItemTitles prev) = length checkItems" using assms(2)[symmetric] by simp
  have n: "\<not> hasNewItems checkItems prev"
    unfolding hasNewItems_def assms(1)[symmetric] by auto
  have "\<forall>i < length checkItems. GLink (checkItems ! i) = AllItemLinks prev ! i \<and>
                                  GTitle (checkItems ! i) = AllItemTitles prev ! i"
    unfolding assms(1)[symmetric] assms(2)[symmetric] by simp
  with n l1 l2 show ?thesis unfolding isChanged_def by auto
qed

lemma isChanged_iff:
  "isChanged checkItems prev \<longleftrightarrow>
     \<not> (map GLink checkItems = AllItemLinks prev \<and> map GTitle checkItems = AllItemTitles prev)"
proof
  assume c: "isChanged checkItems prev"
  show "\<not> (map GLink checkItems = AllItemLinks prev \<and> map GTitle checkItems = AllItemTitles prev)"
    using isChanged_same c by blast
next
  assume n: "\<not> (map GLink checkItems = AllItemLinks prev \<and> map GTitle checkItems = AllItemTitles prev)"
  show "isChanged checkItems prev"
  proof (rule ccontr)
    assume nc: "\<not> isChanged checkItems prev"
    then have l: "length checkItems = length (AllItemLinks prev)" "length checkItems = length (AllItemTitles prev)"
      and e: "\<forall>i < length checkItems. GLink (checkItems ! i) = AllItemLinks prev ! i \<and>
                                  GTitle (checkItems ! i) = AllItemTitles prev ! i"
      unfolding isChanged_def by (auto split: if_splits)
    have "map GLink checkItems = AllItemLinks prev" using l e by (intro nth_equalityI) auto
    moreover have "map GTitle checkItems = AllItemTitles prev" using l e by (intro nth_equalityI) auto
    ultimately show False using n by blast
  qed
qed

text \<open>
  Claim C3, as amended. When the feed parses, a previous snapshot exists, the update is
  not forced, and the capped item list is not empty and has the links and titles of the
  previous snapshot, the update returns success and does no further work: the snapshot is
  the previous one, except that a display time still showing the start-up placeholder
  becomes the time of this fetch; the snapshots of other sources, the classification
  cache, the post-process cache, the retained items and the read state are as before. (The
  configuration is as before up to the adoption of the feed title by a nameless source,
  which precedes the comparison.)
\<close>

theorem unchanged_update_is_noop:
  "ParseURL env url = Inr result
   \<and> DbMap st0 url = Some prev
   \<and> capItems (GetMaxItems (Sources (RssUrls st0)) url) (GItems result) \<noteq> []
   \<and> map GLink (capItems (GetMaxItems (Sources (RssUrls st0)) url) (GItems result)) = AllItemLinks prev
   \<and> map GTitle (capItems (GetMaxItems (Sources (RssUrls st0)) url) (GItems result)) = AllItemTitles prev
   \<longrightarrow>
     (\<exists>st'. UpdateFeedWithOptions env rankingBaseTime url formattedTime isManual False st0
               = Inr (None, st')
        \<and> DbMap st' url
            = Some (if Custom prev \<noteq> None \<and> customGet prev ''lastupdate'' = loadedCacheMarker
                    then prev\<lparr>Custom := Some ((the (Custom prev))(''lastupdate'' \<mapsto> formattedTime))\<rparr>
                    else prev)
        \<and> (\<forall>other. other \<noteq> url \<longrightarrow> DbMap st' other = DbMap st0 other)
        \<and> ClassifyCacheOf st' = ClassifyCacheOf st0
        \<and> PostProcessCache st' = PostProcessCache st0
        \<and> ItemsCacheOf st' = ItemsCacheOf st0
        \<and> ReadState st' = ReadState st0
        \<and> RssUrls st' = adoptFeedTitle (RssUrls st0) url (GFeedTitle result))"
proof (intro impI)
  assume h: "ParseURL env url = Inr result
   \<and> DbMap st0 url = Some prev
   \<and> capItems (GetMaxItems (Sources (RssUrls st0)) url) (GItems result) \<noteq> []
   \<and> map GLink (capItems (GetMaxItems (Sources (RssUrls st0)) url) (GItems result)) = AllItemLinks prev
   \<and> map GTitle (capItems (GetMaxItems (Sources (RssUrls st0)) url) (GItems result)) = AllItemTitles prev"
  let ?st = "st0\<lparr>RssUrls := adoptFeedTitle (RssUrls st0) url (GFeedTitle result)\<rparr>"
  let ?check = "capItems (GetMaxItems (Sources (RssUrls st0)) url) (GItems result)"
  have nc: "\<not> isChanged ?check prev" using h isChanged_same by blast
  have u: "UpdateFeedWithOptions env rankingBaseTime url formattedTime isManual False st0
             = Inr (None, unchangedReturn url formattedTime ?st)"
    using h nc
    by (simp add: UpdateFeedWithOptions_def Let_def GetMaxItems_adoptFeedTitle)
  have d: "DbMap ?st url = Some prev" using h by simp
  show "\<exists>st'. UpdateFeedWithOptions env rankingBaseTime url formattedTime isManual False st0
               = Inr (None, st')
        \<and> DbMap st' url
            = Some (if Custom prev \<noteq> None \<and> customGet prev ''lastupdate'' = loadedCacheMarker
                    then prev\<lparr>Custom := Some ((the (Custom prev))(''lastupdate'' \<mapsto> formattedTime))\<rparr>
                    else prev)
        \<and> (\<forall>other. other \<noteq> url \<longrightarrow> DbMap st' other = DbMap st0 other)
        \<and> ClassifyCacheOf st' = ClassifyCacheOf st0
        \<and> PostProcessCache st' = PostProcessCache st0
        \<and> ItemsCacheOf st' = ItemsCacheOf st0
        \<and> ReadState st' = ReadState st0
        \<and> RssUrls st' = adoptFeedTitle (RssUrls st0) url (GFeedTitle result)"
    unfolding u using d
    by (cases "Custom prev") (auto simp: unchangedReturn_def)
qed

text \<open>The definitions to unfold when an update is run on concrete data.\<close>

lemmas update_eval_defs =
  UpdateFeedWithOptions_def reconciledItems_def finishUpdate_def exampleEnv_def stateWith_def configWith_def sourceWith_def
  aiConfigWith_def adoptFeedTitle_def capItems_def isChanged_iff hasNewItems_def Let_def
  GetIconForFeed_def GetFaviconURL_def ProxyIconURL_def GetItemsCache_def cachedTimes_def
  buildAllItems_def buildItem_def filterStage_def ShouldFilter_def SliceStable_def
  refilter_def cacheMergeStep_def effectiveCacheItems_def oldLinksOf_def oldItemLinksOf_def
  sweepSource_def currentLinksOf_def latestFetchTime_def customGet_def snapshotWith_def
  unchangedReturn_def feedItem_def itemLess_def

text \<open>
  Claim C3 as stated covers every unchanged document. The comparison with the old
  snapshot is guarded by a non-empty item list, so for a feed without items the second of
  two updates builds and publishes a snapshot again, and its display time is that of the
  second fetch: the snapshot after the second call differs from the one after the first.
\<close>

theorem empty_feed_republished_counterexample:
  "UpdateFeedWithOptions (exampleEnv \<lparr>GFeedTitle = ''T'', GItems = [], ImageURL = None\<rparr>) 0 ''u'' ''t1''
     False False
     (stateWith (configWith [sourceWith ''u'' ''N'' None (- 1) False] (aiConfigWith False 0 0))
        Map.empty Map.empty Map.empty)
   = Inr (None,
      stateWith (configWith [sourceWith ''u'' ''N'' None (- 1) False] (aiConfigWith False 0 0))
        [''u'' \<mapsto> snapshotWith ''u'' ''t1'' [] [] []] Map.empty Map.empty)
   \<and> UpdateFeedWithOptions (exampleEnv \<lparr>GFeedTitle = ''T'', GItems = [], ImageURL = None\<rparr>) 0 ''u'' ''t2''
     False False
     (stateWith (configWith [sourceWith ''u'' ''N'' None (- 1) False] (aiConfigWith False 0 0))
        [''u'' \<mapsto> snapshotWith ''u'' ''t1'' [] [] []] Map.empty Map.empty)
   = Inr (None,
      stateWith (configWith [sourceWith ''u'' ''N'' None (- 1) False] (aiConfigWith False 0 0))
        [''u'' \<mapsto> snapshotWith ''u'' ''t2'' [] [] []] Map.empty Map.empty)
   \<and> customGet (snapshotWith ''u'' ''t1'' [] [] []) ''lastupdate'' = ''t1''
   \<and> customGet (snapshotWith ''u'' ''t2'' [] [] []) ''lastupdate'' = ''t2''"
  by (simp add: update_eval_defs)

theorem unchanged_update_is_noop_witness:
  "(\<exists>st'. UpdateFeedWithOptions
            (exampleEnv \<lparr>GFeedTitle = ''T'', GItems = [feedItem ''A'' ''a'' None], ImageURL = None\<rparr>)
            5 ''u'' ''t2'' False False
            (stateWith (configWith [sourceWith ''u'' ''N'' None (- 1) False] (aiConfigWith False 0 0))
               [''u'' \<mapsto> snapshotWith ''u'' ''t1'' [itemWith ''A'' ''a'' []] [''a''] [''A'']]
               Map.empty Map.empty)
          = Inr (None, st')
        \<and> DbMap st' ''u'' = Some (snapshotWith ''u'' ''t1'' [itemWith ''A'' ''a'' []] [''a''] [''A''])
        \<and> ClassifyCacheOf st' = Map.empty \<and> ItemsCacheOf st' = Map.empty)
   \<and> (\<exists>st'. UpdateFeedWithOptions
            (exampleEnv \<lparr>GFeedTitle = ''T'', GItems = [feedItem ''A'' ''a'' None], ImageURL = None\<rparr>)
            5 ''u'' ''t2'' False False
            (stateWith (configWith [sourceWith ''u'' ''N'' None (- 1) False] (aiConfigWith False 0 0))
               [''u'' \<mapsto> snapshotWith ''u'' loadedCacheMarker [itemWith ''A'' ''a'' []] [''a''] [''A'']]
               Map.empty Map.empty)
          = Inr (None, st')
        \<and> map_option (\<lambda>f. customGet f ''lastupdate'') (DbMap st' ''u'') = Some ''t2''
        \<and> map_option Items (DbMap st' ''u'') = Some [itemWith ''A'' ''a'' []])"
proof -
  let ?env = "exampleEnv \<lparr>GFeedTitle = ''T'', GItems = [feedItem ''A'' ''a'' None], ImageURL = None\<rparr>"
  let ?cfg = "configWith [sourceWith ''u'' ''N'' None (- 1) False] (aiConfigWith False 0 0)"
  let ?prev1 = "snapshotWith ''u'' ''t1'' [itemWith ''A'' ''a'' []] [''a''] [''A'']"
  let ?prev2 = "snapshotWith ''u'' loadedCacheMarker [itemWith ''A'' ''a'' []] [''a''] [''A'']"
  have hyp: "ParseURL ?env ''u'' = Inr \<lparr>GFeedTitle = ''T'', GItems = [feedItem ''A'' ''a'' None], ImageURL = None\<rparr>
     \<and> DbMap (stateWith ?cfg [''u'' \<mapsto> p] Map.empty Map.empty) ''u'' = Some p
     \<and> capItems (GetMaxItems (Sources (RssUrls (stateWith ?cfg [''u'' \<mapsto> p] Map.empty Map.empty))) ''u'')
          (GItems \<lparr>GFeedTitle = ''T'', GItems = [feedItem ''A'' ''a'' None], ImageURL = None\<rparr>) \<noteq> []
     \<and> map GLink (capItems (GetMaxItems (Sources (RssUrls (stateWith ?cfg [''u'' \<mapsto> p] Map.empty Map.empty))) ''u'')
          (GItems \<lparr>GFeedTitle = ''T'', GItems = [feedItem ''A'' ''a'' None], ImageURL = None\<rparr>))
         = AllItemLinks p
     \<and> map GTitle (capItems (GetMaxItems (Sources (RssUrls (stateWith ?cfg [''u'' \<mapsto> p] Map.empty Map.empty))) ''u'')
          (GItems \<lparr>GFeedTitle = ''T'', GItems = [feedItem ''A'' ''a'' None], ImageURL = None\<rparr>))
         = AllItemTitles p"
    if "AllItemLinks p = [''a'']" "AllItemTitles p = [''A'']" for p
    using that
    by (simp add: exampleEnv_def stateWith_def configWith_def sourceWith_def capItems_def feedItem_def)
  have a: "\<exists>st'. UpdateFeedWithOptions ?env 5 ''u'' ''t2'' False False
                   (stateWith ?cfg [''u'' \<mapsto> ?prev1] Map.empty Map.empty) = Inr (None, st')
        \<and> DbMap st' ''u'' = Some ?prev1
        \<and> ClassifyCacheOf st' = Map.empty \<and> ItemsCacheOf st' = Map.empty"
    using unchanged_update_is_noop
      [of ?env "''u''" "\<lparr>GFeedTitle = ''T'', GItems = [feedItem ''A'' ''a'' None], ImageURL = None\<rparr>"
          "stateWith ?cfg [''u'' \<mapsto> ?prev1] Map.empty Map.empty" ?prev1 5 "''t2''" False]
      hyp[of ?prev1]
    by (auto simp: snapshotWith_def customGet_def loadedCacheMarker_def stateWith_def)
  have b: "\<exists>st'. UpdateFeedWithOptions ?env 5 ''u'' ''t2'' False False
                   (stateWith ?cfg [''u'' \<mapsto> ?prev2] Map.empty Map.empty) = Inr (None, st')
        \<and> map_option (\<lambda>f. customGet f ''lastupdate'') (DbMap st' ''u'') = Some ''t2''
        \<and> map_option Items (DbMap st' ''u'') = Some [itemWith ''A'' ''a'' []]"
    using unchanged_update_is_noop
      [of ?env "''u''" "\<lparr>GFeedTitle = ''T'', GItems = [feedItem ''A'' ''a'' None], ImageURL = None\<rparr>"
          "stateWith ?cfg [''u'' \<mapsto> ?prev2] Map.empty Map.empty" ?prev2 5 "''t2''" False]
      hyp[of ?prev2]
    by (auto simp: snapshotWith_def customGet_def stateWith_def)
  from a b show ?thesis by blast
qed

lemma SliceStable_Cons: "SliceStable lessFn (x # xs) = insertStable lessFn x (SliceStable lessFn xs)"
  by (simp add: SliceStable_def)

lemma SliceStable_sorted_id:
  assumes "sorted_wrt lessFn xs" "\<forall>a \<in> set xs. \<forall>b \<in> set xs. lessFn a b \<longrightarrow> \<not> lessFn b a"
  shows "SliceStable lessFn xs = xs"
  using assms
proof (induction xs)
  case Nil
  then show ?case by (simp add: SliceStable_def)
next
  case (Cons x xs)
  then have ih: "SliceStable lessFn xs = xs" by simp
  show ?case
  proof (cases xs)
    case Nil
    then show ?thesis by (simp add: SliceStable_def)
  next
    case (Cons y ys)
    with Cons.prems have "lessFn x y" by simp
    with Cons.prems Cons have "\<not> lessFn y x" by simp
    then show ?thesis unfolding SliceStable_Cons ih using Cons by simp
  qed
qed

lemma itemLess_asym: "itemLess a b \<Longrightarrow> \<not> itemLess b a"
  by (auto simp: itemLess_def split: if_splits)

lemma set_insertStable: "set (insertStable lessFn x xs) = insert x (set xs)"
  by (induction xs) auto

lemma set_SliceStable: "set (SliceStable lessFn xs) = set xs"
  by (induction xs) (simp_all add: SliceStable_def set_insertStable)

lemma length_insertStable: "length (insertStable lessFn x xs) = Suc (length xs)"
  by (induction xs) auto

lemma length_SliceStable: "length (SliceStable lessFn xs) = length xs"
  by (induction xs) (simp_all add: SliceStable_def length_insertStable)

text \<open>A list whose items carry, in order, strictly decreasing publish times is sorted.\<close>

lemma ranking_sorted:
  assumes "\<forall>i j. i < j \<and> j < length xs \<longrightarrow> PubDate (xs ! j) < PubDate (xs ! i)"
  shows "sorted_wrt itemLess xs"
  unfolding sorted_wrt_iff_nth_less
proof (intro allI impI)
  fix i j assume "i < j" "j < length xs"
  with assms have "PubDate (xs ! j) < PubDate (xs ! i)" by blast
  then show "itemLess (xs ! i) (xs ! j)" by (auto simp: itemLess_def)
qed

lemma ranking_sort_id:
  assumes "\<forall>i j. i < j \<and> j < length xs \<longrightarrow> PubDate (xs ! j) < PubDate (xs ! i)"
  shows "SliceStable itemLess xs = xs"
  using ranking_sorted[OF assms] itemLess_asym by (intro SliceStable_sorted_id) auto

lemma buildItem_ranking_PubDate:
  "PubDate (buildItem env True ign base ft title cp cf (idx, v)) = formatRFC3339 env (base - int idx)"
  by (simp add: buildItem_def Let_def)

lemma buildAllItems_nth:
  "i < length items \<Longrightarrow>
   buildAllItems env rm ign base ft title cp cf items ! i = buildItem env rm ign base ft title cp cf (i, items ! i)"
  by (simp add: buildAllItems_def)

lemma length_buildAllItems: "length (buildAllItems env rm ign base ft title cp cf items) = length items"
  by (simp add: buildAllItems_def)

lemma Link_buildItem: "Link (buildItem env rm ign base ft title cp cf (i, v)) = GLink v"
  by (simp add: buildItem_def Let_def)

lemma Title_buildItem: "Title (buildItem env rm ign base ft title cp cf (i, v)) = GTitle v"
  by (simp add: buildItem_def Let_def)

lemma map_Link_buildAllItems: "map Link (buildAllItems env rm ign base ft title cp cf items) = map GLink items"
  by (intro nth_equalityI) (simp_all add: length_buildAllItems buildAllItems_nth Link_buildItem)

lemma map_Title_buildAllItems: "map Title (buildAllItems env rm ign base ft title cp cf items) = map GTitle items"
  by (intro nth_equalityI) (simp_all add: length_buildAllItems buildAllItems_nth Title_buildItem)

lemma capItems_take: "\<exists>k. capItems m xs = take k xs"
  unfolding capItems_def by (metis take_all order_refl)

lemma map_capItems: "map f (capItems m xs) = capItems m (map f xs)"
  by (simp add: capItems_def take_map)

lemma copyCategories_fields:
  "map Link (copyCategories fs xs) = map Link xs"
  "map Title (copyCategories fs xs) = map Title xs"
  "map PubDate (copyCategories fs xs) = map PubDate xs"
  "length (copyCategories fs xs) = length xs"
  by (auto simp: copyCategories_def Let_def split: option.splits)

lemma sweepSource_keeps:
  "DbMap (sweepSource env u nl ol oil nf st) = DbMap st"
  "ItemsCacheOf (sweepSource env u nl ol oil nf st) = ItemsCacheOf st"
  "RssUrls (sweepSource env u nl ol oil nf st) = RssUrls st"
  "ReadState (sweepSource env u nl ol oil nf st) = ReadState st"
  by (simp_all add: sweepSource_def Let_def)

lemma finishUpdate_publishes:
  assumes "finishUpdate env url ft result sud cache oc (allItems, passedLinks, cc) st = Inr st'"
  shows "\<exists>merged feed.
      cacheMergeStep (Sources (RssUrls st)) (ItemsCacheOf st) url
          (fst (if ShouldPostProcess env (RssUrls st) url
                then PostProcessItems env (RssUrls st) (PostProcessCache st)
                       (refilter passedLinks (SliceStable itemLess allItems)) url
                else (refilter passedLinks (SliceStable itemLess allItems), PostProcessCache st)))
        = Inr (merged, ItemsCacheOf st')
      \<and> DbMap st' url = Some feed \<and> Items feed = merged
      \<and> AllItemLinks feed = map Link (SliceStable itemLess allItems)
      \<and> AllItemTitles feed = map Title (SliceStable itemLess allItems)"
  using assms unfolding finishUpdate_def
  by (auto simp: Let_def sweepSource_keeps split: sum.splits prod.splits if_splits)

lemma update_full_path:
  assumes p: "ParseURL env url = Inr result"
    and st: "st = st0\<lparr>RssUrls := adoptFeedTitle (RssUrls st0) url (GFeedTitle result)\<rparr>"
    and ns: "\<not> (DbMap st0 url \<noteq> None
               \<and> length (capItems (GetMaxItems (Sources (RssUrls st)) url) (GItems result)) > 0
               \<and> \<not> force
               \<and> \<not> isChanged (capItems (GetMaxItems (Sources (RssUrls st)) url) (GItems result))
                                (the (DbMap st0 url)))"
    and r: "UpdateFeedWithOptions env base url ft isManual force st0 = Inr (err, st')"
  shows "\<exists>filtered sud oc.
      filterStage env (RssUrls st) (ClassifyCacheOf st) url (reconciledItems env base url ft result st)
        = Inr filtered
      \<and> finishUpdate env url ft result sud (DbMap st url) oc filtered st = Inr st' \<and> err = None"
  using r ns
  unfolding UpdateFeedWithOptions_def p st
  by (auto simp: Let_def split: sum.splits if_splits) blast+

lemma IsRankingMode_adoptTitle: "IsRankingMode (adoptTitle srcs u title) url = IsRankingMode srcs url"
  by (induction srcs) auto

lemma IsRankingMode_adoptFeedTitle:
  "IsRankingMode (Sources (adoptFeedTitle config u title)) url = IsRankingMode (Sources config) url"
  by (simp add: adoptFeedTitle_def IsRankingMode_adoptTitle)

lemma filterStage_fields:
  assumes "filterStage env config cc url xs = Inr (ys, passedLinks, cc')"
  shows "map Link ys = map Link xs" "map Title ys = map Title xs" "map PubDate ys = map PubDate xs"
  using assms
  by (auto simp: filterStage_def copyCategories_fields split: if_splits sum.splits)

lemma reconciledItems_fields:
  "map Link (reconciledItems env base url ft result st)
     = map GLink (capItems (GetMaxItems (Sources (RssUrls st)) url) (GItems result))"
  "map Title (reconciledItems env base url ft result st)
     = map GTitle (capItems (GetMaxItems (Sources (RssUrls st)) url) (GItems result))"
  by (simp_all add: reconciledItems_def Let_def map_capItems map_Link_buildAllItems
      map_Title_buildAllItems)

lemma reconciledItems_ranking_PubDate:
  assumes "IsRankingMode (Sources (RssUrls st)) url"
    and "i < length (reconciledItems env base url ft result st)"
  shows "PubDate (reconciledItems env base url ft result st ! i) = formatRFC3339 env (base - int i)
         \<and> i < length (GItems result)"
proof -
  let ?all = "buildAllItems env True (ShouldIgnoreOriginalPubDate (Sources (RssUrls st)) url) base ft
                (GFeedTitle result)
                (cachedTimes PubDate (case DbMap st url of Some c \<Rightarrow> Items c | None \<Rightarrow> [])
                   (case GetItemsCache (ItemsCacheOf st) url of Some c \<Rightarrow> c | None \<Rightarrow> []))
                (cachedTimes FetchTime (case DbMap st url of Some c \<Rightarrow> Items c | None \<Rightarrow> [])
                   (case GetItemsCache (ItemsCacheOf st) url of Some c \<Rightarrow> c | None \<Rightarrow> []))
                (GItems result)"
  have r: "reconciledItems env base url ft result st = capItems (GetMaxItems (Sources (RssUrls st)) url) ?all"
    using assms(1) by (simp add: reconciledItems_def Let_def)
  obtain k where k: "capItems (GetMaxItems (Sources (RssUrls st)) url) ?all = take k ?all"
    using capItems_take by blast
  have i: "i < k" "i < length (GItems result)"
    using assms(2) unfolding r k by (simp_all add: length_buildAllItems)
  then show ?thesis
    unfolding r k by (simp add: buildAllItems_nth buildItem_ranking_PubDate)
qed

lemma ranking_sort_keeps_order:
  assumes rm: "IsRankingMode (Sources (RssUrls st)) url"
    and dec: "\<forall>i j. i < j \<and> j < length (GItems result) \<longrightarrow>
                 formatRFC3339 env (base - int j) < formatRFC3339 env (base - int i)"
    and same: "map PubDate ys = map PubDate (reconciledItems env base url ft result st)"
  shows "SliceStable itemLess ys = ys"
proof (rule ranking_sort_id, intro allI impI)
  fix i j assume ij: "i < j \<and> j < length ys"
  have len: "length ys = length (reconciledItems env base url ft result st)"
    using same by (metis length_map)
  have pd: "PubDate (ys ! n) = PubDate (reconciledItems env base url ft result st ! n)"
    if "n < length ys" for n
    using that same len by (metis nth_map)
  have "j < length (reconciledItems env base url ft result st)" using ij len by simp
  from reconciledItems_ranking_PubDate[OF rm this]
  have j: "PubDate (ys ! j) = formatRFC3339 env (base - int j)" "j < length (GItems result)"
    using pd ij by simp_all
  have "i < length (reconciledItems env base url ft result st)" using ij len by simp
  from reconciledItems_ranking_PubDate[OF rm this]
  have i: "PubDate (ys ! i) = formatRFC3339 env (base - int i)" using pd ij by simp
  show "PubDate (ys ! j) < PubDate (ys ! i)"
    unfolding i j using dec ij j(2) by blast
qed

text \<open>
  Ranking mode under one UTC offset. The publish time of the item at index \<open>idx\<close> is the
  rendering of the fetch instant minus \<open>idx\<close> seconds, whatever times the feed or the
  caches give. The instants decrease strictly along the feed; when their renderings do so
  as strings, which is how the sort compares them, the list built by an update that
  rebuilds the snapshot is already in canonical order, the sort returns it as it is, and
  the snapshot lists the links and titles of the capped feed in feed order.
\<close>

theorem ranking_mode_keeps_feed_order:
  "PubDate (buildItem env True ign base ft title cachedPubDates cachedFetchTimes (idx, v))
     = formatRFC3339 env (base - int idx)
   \<and> (IsRankingMode (Sources (RssUrls st0)) url
      \<and> (\<forall>i j. i < j \<and> j < length (GItems result) \<longrightarrow>
             formatRFC3339 env (base - int j) < formatRFC3339 env (base - int i))
      \<and> ParseURL env url = Inr result
      \<and> \<not> (DbMap st0 url \<noteq> None
            \<and> length (capItems (GetMaxItems (Sources (RssUrls st0)) url) (GItems result)) > 0
            \<and> \<not> force
            \<and> \<not> isChanged (capItems (GetMaxItems (Sources (RssUrls st0)) url) (GItems result))
                             (the (DbMap st0 url)))
      \<and> UpdateFeedWithOptions env base url ft isManual force st0 = Inr (err, st')
      \<longrightarrow> (\<exists>allItems feed.
             map Link allItems = map GLink (capItems (GetMaxItems (Sources (RssUrls st0)) url) (GItems result))
           \<and> map PubDate allItems
               = map (\<lambda>i. formatRFC3339 env (base - int i)) [0..<length allItems]
           \<and> SliceStable itemLess allItems = allItems
           \<and> DbMap st' url = Some feed
           \<and> AllItemLinks feed
               = map GLink (capItems (GetMaxItems (Sources (RssUrls st0)) url) (GItems result))
           \<and> AllItemTitles feed
               = map GTitle (capItems (GetMaxItems (Sources (RssUrls st0)) url) (GItems result))))"
proof (intro conjI impI)
  show "PubDate (buildItem env True ign base ft title cachedPubDates cachedFetchTimes (idx, v))
     = formatRFC3339 env (base - int idx)"
    by (rule buildItem_ranking_PubDate)
next
  assume h: "IsRankingMode (Sources (RssUrls st0)) url
      \<and> (\<forall>i j. i < j \<and> j < length (GItems result) \<longrightarrow>
             formatRFC3339 env (base - int j) < formatRFC3339 env (base - int i))
      \<and> ParseURL env url = Inr result
      \<and> \<not> (DbMap st0 url \<noteq> None
            \<and> length (capItems (GetMaxItems (Sources (RssUrls st0)) url) (GItems result)) > 0
            \<and> \<not> force
            \<and> \<not> isChanged (capItems (GetMaxItems (Sources (RssUrls st0)) url) (GItems result))
                             (the (DbMap st0 url)))
      \<and> UpdateFeedWithOptions env base url ft isManual force st0 = Inr (err, st')"
  define st where "st = st0\<lparr>RssUrls := adoptFeedTitle (RssUrls st0) url (GFeedTitle result)\<rparr>"
  have mx: "GetMaxItems (Sources (RssUrls st)) url = GetMaxItems (Sources (RssUrls st0)) url"
    by (simp add: st_def GetMaxItems_adoptFeedTitle)
  have rm: "IsRankingMode (Sources (RssUrls st)) url"
    using h by (simp add: st_def IsRankingMode_adoptFeedTitle)
  obtain filtered sud oc where
    f: "filterStage env (RssUrls st) (ClassifyCacheOf st) url (reconciledItems env base url ft result st)
          = Inr filtered"
    and fin: "finishUpdate env url ft result sud (DbMap st url) oc filtered st = Inr st'"
    using update_full_path[of env url result st st0 force base ft isManual err st'] h
    unfolding mx by (auto simp: st_def)
  obtain allItems passedLinks cc where fl: "filtered = (allItems, passedLinks, cc)"
    by (cases filtered) auto
  note ff = filterStage_fields[OF f[unfolded fl]]
  have sorted: "SliceStable itemLess allItems = allItems"
    using ranking_sort_keeps_order[OF rm _ ff(3)] h by blast
  have len: "length allItems = length (reconciledItems env base url ft result st)"
    using ff(1) by (metis length_map)
  have pd: "map PubDate allItems = map (\<lambda>i. formatRFC3339 env (base - int i)) [0..<length allItems]"
    unfolding ff(3)
    by (intro nth_equalityI) (simp_all add: len reconciledItems_ranking_PubDate[OF rm])
  obtain merged feed where
    pub: "DbMap st' url = Some feed"
      "AllItemLinks feed = map Link (SliceStable itemLess allItems)"
      "AllItemTitles feed = map Title (SliceStable itemLess allItems)"
    using finishUpdate_publishes[OF fin[unfolded fl]] by blast
  show "\<exists>allItems feed.
             map Link allItems = map GLink (capItems (GetMaxItems (Sources (RssUrls st0)) url) (GItems result))
           \<and> map PubDate allItems
               = map (\<lambda>i. formatRFC3339 env (base - int i)) [0..<length allItems]
           \<and> SliceStable itemLess allItems = allItems
           \<and> DbMap st' url = Some feed
           \<and> AllItemLinks feed
               = map GLink (capItems (GetMaxItems (Sources (RssUrls st0)) url) (GItems result))
           \<and> AllItemTitles feed
               = map GTitle (capItems (GetMaxItems (Sources (RssUrls st0)) url) (GItems result))"
    using pub sorted pd ff(1,2) reconciledItems_fields[of env base url ft result st]
    unfolding mx by (intro exI[of _ allItems] exI[of _ feed]) simp
qed

lemma replicate_less: "m < n \<Longrightarrow> replicate m (c :: char) < replicate n c"
proof (induction m arbitrary: n)
  case 0
  then show ?case by (cases n) simp_all
next
  case (Suc m)
  then show ?case by (cases n) simp_all
qed

theorem ranking_mode_keeps_feed_order_witness:
  "UpdateFeedWithOptions
     (exampleEnv \<lparr>GFeedTitle = ''T'',
                  GItems = [feedItem ''A'' ''a'' (Some ''2020''), feedItem ''B'' ''b'' (Some ''2022''),
                            feedItem ''C'' ''c'' (Some ''2021'')],
                  ImageURL = None\<rparr>)
     10 ''u'' ''t1'' False False
     (stateWith (configWith [sourceWith ''u'' ''N'' None (- 1) True] (aiConfigWith False 0 0))
        Map.empty Map.empty Map.empty)
   = Inr (None,
       stateWith (configWith [sourceWith ''u'' ''N'' None (- 1) True] (aiConfigWith False 0 0))
         [''u'' \<mapsto> snapshotWith ''u'' ''t1''
            [fullItem ''A'' ''a'' (replicate 10 CHR ''t'') ''t1'' 0,
             fullItem ''B'' ''b'' (replicate 9 CHR ''t'') ''t1'' 1,
             fullItem ''C'' ''c'' (replicate 8 CHR ''t'') ''t1'' 2]
            [''a'', ''b'', ''c''] [''A'', ''B'', ''C'']]
         Map.empty Map.empty)
   \<and> UpdateFeedWithOptions
     (exampleEnv \<lparr>GFeedTitle = ''T'',
                  GItems = [feedItem ''A'' ''a'' (Some ''2020''), feedItem ''C'' ''c'' (Some ''2021''),
                            feedItem ''B'' ''b'' (Some ''2022'')],
                  ImageURL = None\<rparr>)
     20 ''u'' ''t2'' False False
     (stateWith (configWith [sourceWith ''u'' ''N'' None (- 1) True] (aiConfigWith False 0 0))
         [''u'' \<mapsto> snapshotWith ''u'' ''t1''
            [fullItem ''A'' ''a'' (replicate 10 CHR ''t'') ''t1'' 0,
             fullItem ''B'' ''b'' (replicate 9 CHR ''t'') ''t1'' 1,
             fullItem ''C'' ''c'' (replicate 8 CHR ''t'') ''t1'' 2]
            [''a'', ''b'', ''c''] [''A'', ''B'', ''C'']]
         Map.empty Map.empty)
   = Inr (None,
       stateWith (configWith [sourceWith ''u'' ''N'' None (- 1) True] (aiConfigWith False 0 0))
         [''u'' \<mapsto> snapshotWith ''u'' ''t1''
            [fullItem ''A'' ''a'' (replicate 20 CHR ''t'') ''t1'' 0,
             fullItem ''C'' ''c'' (replicate 19 CHR ''t'') ''t1'' 1,
             fullItem ''B'' ''b'' (replicate 18 CHR ''t'') ''t1'' 2]
            [''a'', ''c'', ''b''] [''A'', ''C'', ''B'']]
         Map.empty Map.empty)"
proof -
  let ?cfg = "configWith [sourceWith ''u'' ''N'' None (- 1) True] (aiConfigWith False 0 0)"
  let ?f2 = "\<lparr>GFeedTitle = ''T'',
              GItems = [feedItem ''A'' ''a'' (Some ''2020''), feedItem ''C'' ''c'' (Some ''2021''),
                        feedItem ''B'' ''b'' (Some ''2022'')],
              ImageURL = None\<rparr>"
  let ?s1 = "stateWith ?cfg
         [''u'' \<mapsto> snapshotWith ''u'' ''t1''
            [fullItem ''A'' ''a'' (replicate 10 CHR ''t'') ''t1'' 0,
             fullItem ''B'' ''b'' (replicate 9 CHR ''t'') ''t1'' 1,
             fullItem ''C'' ''c'' (replicate 8 CHR ''t'') ''t1'' 2]
            [''a'', ''b'', ''c''] [''A'', ''B'', ''C'']]
         Map.empty Map.empty"
  let ?s2 = "stateWith ?cfg
         [''u'' \<mapsto> snapshotWith ''u'' ''t1''
            [fullItem ''A'' ''a'' (replicate 20 CHR ''t'') ''t1'' 0,
             fullItem ''C'' ''c'' (replicate 19 CHR ''t'') ''t1'' 1,
             fullItem ''B'' ''b'' (replicate 18 CHR ''t'') ''t1'' 2]
            [''a'', ''c'', ''b''] [''A'', ''C'', ''B'']]
         Map.empty Map.empty"
  have first: "UpdateFeedWithOptions
     (exampleEnv \<lparr>GFeedTitle = ''T'',
                  GItems = [feedItem ''A'' ''a'' (Some ''2020''), feedItem ''B'' ''b'' (Some ''2022''),
                            feedItem ''C'' ''c'' (Some ''2021'')],
                  ImageURL = None\<rparr>)
     10 ''u'' ''t1'' False False (stateWith ?cfg Map.empty Map.empty Map.empty) = Inr (None, ?s1)"
    by (simp add: update_eval_defs fullItem_def numeral_eq_Suc)
  have second: "UpdateFeedWithOptions (exampleEnv ?f2) 20 ''u'' ''t2'' False False ?s1 = Inr (None, ?s2)"
    by (simp add: update_eval_defs fullItem_def numeral_eq_Suc)
  have dec: "\<forall>i j. i < j \<and> j < length (GItems ?f2) \<longrightarrow>
               formatRFC3339 (exampleEnv ?f2) (20 - int j) < formatRFC3339 (exampleEnv ?f2) (20 - int i)"
    by (auto simp: exampleEnv_def intro!: replicate_less)
  have rm: "IsRankingMode (Sources (RssUrls ?s1)) ''u''"
    by (simp add: stateWith_def configWith_def sourceWith_def)
  have p: "ParseURL (exampleEnv ?f2) ''u'' = Inr ?f2" by (simp add: exampleEnv_def)
  have ch: "\<not> (DbMap ?s1 ''u'' \<noteq> None
            \<and> length (capItems (GetMaxItems (Sources (RssUrls ?s1)) ''u'') (GItems ?f2)) > 0
            \<and> \<not> False
            \<and> \<not> isChanged (capItems (GetMaxItems (Sources (RssUrls ?s1)) ''u'') (GItems ?f2))
                             (the (DbMap ?s1 ''u'')))"
    by (simp add: isChanged_iff stateWith_def configWith_def sourceWith_def capItems_def
        snapshotWith_def feedItem_def)
  have "\<exists>allItems feed.
          map Link allItems = map GLink (capItems (GetMaxItems (Sources (RssUrls ?s1)) ''u'') (GItems ?f2))
        \<and> map PubDate allItems
            = map (\<lambda>i. formatRFC3339 (exampleEnv ?f2) (20 - int i)) [0..<length allItems]
        \<and> SliceStable itemLess allItems = allItems
        \<and> DbMap ?s2 ''u'' = Some feed
        \<and> AllItemLinks feed
            = map GLink (capItems (GetMaxItems (Sources (RssUrls ?s1)) ''u'') (GItems ?f2))
        \<and> AllItemTitles feed
            = map GTitle (capItems (GetMaxItems (Sources (RssUrls ?s1)) ''u'') (GItems ?f2))"
    using ranking_mode_keeps_feed_order
      [of "exampleEnv ?f2" False 20 "''t2''" "''T''" Map.empty Map.empty 0 "feedItem ''A'' ''a'' (Some ''2020'')"
          ?s1 "''u''" ?f2 False False None ?s2]
      rm dec p ch second
    by blast
  with first second show ?thesis by blast
qed

text \<open>The renderings of the three instants that end at the change of the offset.\<close>

lemma fallBackFormat_values:
  "fallBackFormat 1792890000 = ''2026-10-25T02:00:00+01:00''"
  "fallBackFormat 1792889999 = ''2026-10-25T02:59:59+02:00''"
  "fallBackFormat 1792889998 = ''2026-10-25T02:59:58+02:00''"
  by (simp_all add: fallBackFormat_def twoDigits_def Let_def)

text \<open>
  Claim C7 where the UTC offset of the local zone changes. The synthetic timestamps are
  compared as rendered strings, and the comment at their assignment says that they
  decrease so that the sort keeps the order of the source. The instants do decrease, their
  renderings need not: for a fetch at the second the zone falls back by an hour the item
  at index 0 is stamped \<open>02:00:00+01:00\<close> and the items at indexes 1 and 2, one and two
  seconds earlier, \<open>02:59:59+02:00\<close> and \<open>02:59:58+02:00\<close>. The update of a ranking-mode
  source with the feed \<open>[A, B, C]\<close> then publishes \<open>[B, C, A]\<close>.
\<close>

theorem ranking_mode_reorders_at_offset_change:
  "UpdateFeedWithOptions
     ((exampleEnv \<lparr>GFeedTitle = ''T'',
                   GItems = [feedItem ''A'' ''a'' None, feedItem ''B'' ''b'' None,
                             feedItem ''C'' ''c'' None],
                   ImageURL = None\<rparr>)\<lparr>formatRFC3339 := fallBackFormat\<rparr>)
     1792890000 ''u'' ''t1'' False False
     (stateWith (configWith [sourceWith ''u'' ''N'' None (- 1) True] (aiConfigWith False 0 0))
        Map.empty Map.empty Map.empty)
   = Inr (None,
       stateWith (configWith [sourceWith ''u'' ''N'' None (- 1) True] (aiConfigWith False 0 0))
         [''u'' \<mapsto> snapshotWith ''u'' ''t1''
            [fullItem ''B'' ''b'' ''2026-10-25T02:59:59+02:00'' ''t1'' 1,
             fullItem ''C'' ''c'' ''2026-10-25T02:59:58+02:00'' ''t1'' 2,
             fullItem ''A'' ''a'' ''2026-10-25T02:00:00+01:00'' ''t1'' 0]
            [''b'', ''c'', ''a''] [''B'', ''C'', ''A'']]
         Map.empty Map.empty)
   \<and> IsRankingMode
         (Sources (configWith [sourceWith ''u'' ''N'' None (- 1) True] (aiConfigWith False 0 0))) ''u''
   \<and> map (\<lambda>idx. fallBackFormat (1792890000 - int idx)) [0, 1, 2]
       = [''2026-10-25T02:00:00+01:00'', ''2026-10-25T02:59:59+02:00'', ''2026-10-25T02:59:58+02:00'']"
proof (intro conjI)
  show "UpdateFeedWithOptions
     ((exampleEnv \<lparr>GFeedTitle = ''T'',
                   GItems = [feedItem ''A'' ''a'' None, feedItem ''B'' ''b'' None,
                             feedItem ''C'' ''c'' None],
                   ImageURL = None\<rparr>)\<lparr>formatRFC3339 := fallBackFormat\<rparr>)
     1792890000 ''u'' ''t1'' False False
     (stateWith (configWith [sourceWith ''u'' ''N'' None (- 1) True] (aiConfigWith False 0 0))
        Map.empty Map.empty Map.empty)
   = Inr (None,
       stateWith (configWith [sourceWith ''u'' ''N'' None (- 1) True] (aiConfigWith False 0 0))
         [''u'' \<mapsto> snapshotWith ''u'' ''t1''
            [fullItem ''B'' ''b'' ''2026-10-25T02:59:59+02:00'' ''t1'' 1,
             fullItem ''C'' ''c'' ''2026-10-25T02:59:58+02:00'' ''t1'' 2,
             fullItem ''A'' ''a'' ''2026-10-25T02:00:00+01:00'' ''t1'' 0]
            [''b'', ''c'', ''a''] [''B'', ''C'', ''A'']]
         Map.empty Map.empty)"
    by (simp add: update_eval_defs fullItem_def fallBackFormat_values)
  show "IsRankingMode
         (Sources (configWith [sourceWith ''u'' ''N'' None (- 1) True] (aiConfigWith False 0 0))) ''u''"
    by (simp add: configWith_def sourceWith_def)
  show "map (\<lambda>idx. fallBackFormat (1792890000 - int idx)) [0, 1, 2]
       = [''2026-10-25T02:00:00+01:00'', ''2026-10-25T02:59:59+02:00'', ''2026-10-25T02:59:58+02:00'']"
    by (simp add: fallBackFormat_values)
qed

lemma itemLeq_not_less: "itemLeq a b \<longleftrightarrow> \<not> itemLess b a"
  by (auto simp: itemLeq_def itemLess_def)

lemma itemLeq_trans: "itemLeq a b \<Longrightarrow> itemLeq b c \<Longrightarrow> itemLeq a c"
  by (auto simp: itemLeq_def)

lemma itemLess_imp_leq: "itemLess a b \<Longrightarrow> itemLeq a b"
  by (auto simp: itemLeq_def itemLess_def split: if_splits)

lemma sorted_insertStable:
  "sorted_wrt itemLeq xs \<Longrightarrow> sorted_wrt itemLeq (insertStable itemLess x xs)"
proof (induction xs)
  case Nil
  then show ?case by simp
next
  case (Cons y ys)
  show ?case
  proof (cases "itemLess y x")
    case True
    then have "itemLeq y x" by (rule itemLess_imp_leq)
    with Cons True show ?thesis by (auto simp: set_insertStable)
  next
    case False
    then have xy: "itemLeq x y" by (simp add: itemLeq_not_less)
    have "\<forall>z \<in> set ys. itemLeq x z" using Cons.prems xy itemLeq_trans by auto
    with Cons.prems xy False show ?thesis by simp
  qed
qed

lemma sorted_SliceStable: "sorted_wrt itemLeq (SliceStable itemLess xs)"
  by (induction xs) (simp_all add: SliceStable_def sorted_insertStable)

lemma mset_insertStable: "mset (insertStable lessFn x xs) = add_mset x (mset xs)"
  by (induction xs) auto

lemma mset_SliceStable: "mset (SliceStable lessFn xs) = mset xs"
  by (induction xs) (simp_all add: SliceStable_def mset_insertStable)

lemma subseq_refilter: "subseq (refilter passedLinks xs) xs"
  by (simp add: refilter_def)

lemma cacheMergeStep_disabled:
  "effectiveCacheItems srcs url xs \<le> 0 \<Longrightarrow> cacheMergeStep srcs cache url xs = Inr (xs, cache)"
  by (simp add: cacheMergeStep_def Let_def)

lemma subseq_dedupByLink: "subseq (dedupByLink xs) xs"
proof (induction xs rule: dedupByLink.induct)
  case 1
  show ?case by simp
next
  case (2 x xs)
  have "subseq (filter (\<lambda>y. Link y \<noteq> Link x) xs) xs" by simp
  with 2 have "subseq (dedupByLink (filter (\<lambda>y. Link y \<noteq> Link x) xs)) xs"
    using subseq_order.order_trans by blast
  then show ?case by simp
qed

lemma subseq_set_subset: "subseq xs ys \<Longrightarrow> set xs \<subseteq> set ys"
  using list_emb_set[of "(=)" xs ys] by auto

lemma subseq_take_left: "subseq (take n xs) xs"
  by (simp add: prefix_imp_subseq take_is_prefix)

lemma retainedSpec_split:
  "\<exists>kept backfill. retainedSpec new cached n = kept @ backfill
      \<and> subseq kept new
      \<and> set backfill \<subseteq> set cached
      \<and> Link ` set backfill \<inter> Link ` set new = {}"
proof -
  let ?D = "dedupByLink new"
  let ?F = "dedupByLink (filter (\<lambda>c. Link c \<notin> Link ` set new) cached)"
  have r: "retainedSpec new cached n = take n ?D @ take (n - length ?D) ?F"
    by (simp add: retainedSpec_def del: dedupByLink.simps)
  have "subseq (take n ?D) ?D" by (rule subseq_take_left)
  then have k: "subseq (take n ?D) new"
    using subseq_dedupByLink[of new] subseq_order.order_trans by blast
  have "set (take (n - length ?D) ?F) \<subseteq> set ?F" by (rule set_take_subset)
  also have "\<dots> \<subseteq> set (filter (\<lambda>c. Link c \<notin> Link ` set new) cached)"
    by (rule set_dedupByLink_subset)
  finally have b: "set (take (n - length ?D) ?F) \<subseteq> {c \<in> set cached. Link c \<notin> Link ` set new}"
    by simp
  show ?thesis
    unfolding r using k b
    by (intro exI[of _ "take n ?D"] exI[of _ "take (n - length ?D) ?F"]) auto
qed

text \<open>
  Claim C1, as amended. For every update that rebuilds the snapshot and succeeds: the
  snapshot's full link and title lists are those of the canonical order of the capped
  items (a reordering of them that is sorted descending by timestamp, ties ascending by
  original index); the filtered list derived from it is a subsequence of the canonical
  order; and the items stored are the outcome of post-processing and cache merge on that
  list. With post-processing off and the retained cache disabled the stored items are the
  filtered list itself, a subsequence of the canonical order. With post-processing off
  and a positive cap they are at most cap many: a subsequence of the canonical order
  followed by backfilled retained items, whose links are not among the kept ones.
\<close>

theorem filtered_subsequence_of_canonical:
  "ParseURL env url = Inr result
   \<and> \<not> (DbMap st0 url \<noteq> None
         \<and> length (capItems (GetMaxItems (Sources (RssUrls st0)) url) (GItems result)) > 0
         \<and> \<not> force
         \<and> \<not> isChanged (capItems (GetMaxItems (Sources (RssUrls st0)) url) (GItems result))
                          (the (DbMap st0 url)))
   \<and> UpdateFeedWithOptions env base url ft isManual force st0 = Inr (err, st')
   \<longrightarrow>
   (\<exists>config allItems canonical pre feed.
        config = adoptFeedTitle (RssUrls st0) url (GFeedTitle result)
      \<and> map Link allItems = map GLink (capItems (GetMaxItems (Sources (RssUrls st0)) url) (GItems result))
      \<and> canonical = SliceStable itemLess allItems
      \<and> mset canonical = mset allItems
      \<and> sorted_wrt itemLeq canonical
      \<and> subseq pre canonical
      \<and> DbMap st' url = Some feed
      \<and> AllItemLinks feed = map Link canonical
      \<and> AllItemTitles feed = map Title canonical
      \<and> cacheMergeStep (Sources config) (ItemsCacheOf st0) url
            (fst (if ShouldPostProcess env config url
                  then PostProcessItems env config (PostProcessCache st0) pre url
                  else (pre, PostProcessCache st0)))
          = Inr (Items feed, ItemsCacheOf st')
      \<and> (\<not> ShouldPostProcess env config url \<and> effectiveCacheItems (Sources config) url pre \<le> 0
           \<longrightarrow> Items feed = pre \<and> subseq (Items feed) canonical
               \<and> subseq (map Link (Items feed)) (AllItemLinks feed))
      \<and> (\<not> ShouldPostProcess env config url \<and> 0 < effectiveCacheItems (Sources config) url pre
           \<longrightarrow> (\<exists>kept backfill.
                  Items feed = kept @ backfill
                \<and> length (Items feed) \<le> nat (effectiveCacheItems (Sources config) url pre)
                \<and> subseq kept canonical
                \<and> set backfill \<subseteq> set (case ItemsCacheOf st0 url of None \<Rightarrow> [] | Some c \<Rightarrow> c)
                \<and> Link ` set backfill \<inter> Link ` set kept = {})))"
proof (intro impI)
  assume h: "ParseURL env url = Inr result
   \<and> \<not> (DbMap st0 url \<noteq> None
         \<and> length (capItems (GetMaxItems (Sources (RssUrls st0)) url) (GItems result)) > 0
         \<and> \<not> force
         \<and> \<not> isChanged (capItems (GetMaxItems (Sources (RssUrls st0)) url) (GItems result))
                          (the (DbMap st0 url)))
   \<and> UpdateFeedWithOptions env base url ft isManual force st0 = Inr (err, st')"
  define st where "st = st0\<lparr>RssUrls := adoptFeedTitle (RssUrls st0) url (GFeedTitle result)\<rparr>"
  define config where "config = adoptFeedTitle (RssUrls st0) url (GFeedTitle result)"
  have mx: "GetMaxItems (Sources (RssUrls st)) url = GetMaxItems (Sources (RssUrls st0)) url"
    by (simp add: st_def GetMaxItems_adoptFeedTitle)
  have stf: "RssUrls st = config" "ItemsCacheOf st = ItemsCacheOf st0"
    "PostProcessCache st = PostProcessCache st0"
    by (simp_all add: st_def config_def)
  obtain filtered sud oc where
    f: "filterStage env (RssUrls st) (ClassifyCacheOf st) url (reconciledItems env base url ft result st)
          = Inr filtered"
    and fin: "finishUpdate env url ft result sud (DbMap st url) oc filtered st = Inr st'"
    using update_full_path[of env url result st st0 force base ft isManual err st'] h
    unfolding mx by (auto simp: st_def)
  obtain allItems passedLinks cc where fl: "filtered = (allItems, passedLinks, cc)"
    by (cases filtered) auto
  note ff = filterStage_fields[OF f[unfolded fl]]
  define canonical where "canonical = SliceStable itemLess allItems"
  define pre where "pre = refilter passedLinks canonical"
  obtain feed where
    mg: "cacheMergeStep (Sources config) (ItemsCacheOf st0) url
          (fst (if ShouldPostProcess env config url
                then PostProcessItems env config (PostProcessCache st0) pre url
                else (pre, PostProcessCache st0)))
        = Inr (Items feed, ItemsCacheOf st')"
    and pub: "DbMap st' url = Some feed" "AllItemLinks feed = map Link canonical"
      "AllItemTitles feed = map Title canonical"
    using finishUpdate_publishes[OF fin[unfolded fl]]
    unfolding stf canonical_def[symmetric] pre_def[symmetric] by blast
  have links: "map Link allItems = map GLink (capItems (GetMaxItems (Sources (RssUrls st0)) url) (GItems result))"
    using ff(1) reconciledItems_fields(1)[of env base url ft result st] unfolding mx by simp
  have sp: "subseq pre canonical" unfolding pre_def by (rule subseq_refilter)
  have off: "Items feed = pre \<and> subseq (Items feed) canonical
               \<and> subseq (map Link (Items feed)) (AllItemLinks feed)"
    if "\<not> ShouldPostProcess env config url \<and> effectiveCacheItems (Sources config) url pre \<le> 0"
  proof -
    have "Items feed = pre" using mg that by (simp add: cacheMergeStep_disabled)
    then show ?thesis using sp pub(2) by (simp add: subseq_map)
  qed
  have on: "\<exists>kept backfill.
                  Items feed = kept @ backfill
                \<and> length (Items feed) \<le> nat (effectiveCacheItems (Sources config) url pre)
                \<and> subseq kept canonical
                \<and> set backfill \<subseteq> set (case ItemsCacheOf st0 url of None \<Rightarrow> [] | Some c \<Rightarrow> c)
                \<and> Link ` set backfill \<inter> Link ` set kept = {}"
    if t: "\<not> ShouldPostProcess env config url \<and> 0 < effectiveCacheItems (Sources config) url pre"
  proof -
    let ?n = "effectiveCacheItems (Sources config) url pre"
    let ?new = "filter (\<lambda>x. Link x \<noteq> []) pre"
    let ?cached = "filter (\<lambda>x. Link x \<noteq> []) (case ItemsCacheOf st0 url of None \<Rightarrow> [] | Some c \<Rightarrow> c)"
    have "mergeWithCachedItems (ItemsCacheOf st0) url pre ?n = Inr (Items feed, ItemsCacheOf st')"
      using mg t by (simp add: cacheMergeStep_def Let_def)
    then have it: "Items feed = retainedSpec ?new ?cached (nat ?n)"
      using mergeWithCachedItems_closed[of ?n "ItemsCacheOf st0" url pre] t by (simp add: Let_def)
    obtain kept backfill where kb: "retainedSpec ?new ?cached (nat ?n) = kept @ backfill"
      "subseq kept ?new" "set backfill \<subseteq> set ?cached"
      "Link ` set backfill \<inter> Link ` set ?new = {}"
      using retainedSpec_split by blast
    have "subseq ?new pre" by simp
    then have "subseq kept canonical"
      using kb(2) sp subseq_order.order_trans by blast
    moreover have "Link ` set backfill \<inter> Link ` set kept = {}"
      using kb(4) subseq_set_subset[OF kb(2)] by blast
    moreover have "set backfill \<subseteq> set (case ItemsCacheOf st0 url of None \<Rightarrow> [] | Some c \<Rightarrow> c)"
      using kb(3) by auto
    moreover have "length (Items feed) \<le> nat ?n" unfolding it by (rule length_retainedSpec)
    ultimately show ?thesis using it kb(1) by auto
  qed
  show "\<exists>config allItems canonical pre feed.
        config = adoptFeedTitle (RssUrls st0) url (GFeedTitle result)
      \<and> map Link allItems = map GLink (capItems (GetMaxItems (Sources (RssUrls st0)) url) (GItems result))
      \<and> canonical = SliceStable itemLess allItems
      \<and> mset canonical = mset allItems
      \<and> sorted_wrt itemLeq canonical
      \<and> subseq pre canonical
      \<and> DbMap st' url = Some feed
      \<and> AllItemLinks feed = map Link canonical
      \<and> AllItemTitles feed = map Title canonical
      \<and> cacheMergeStep (Sources config) (ItemsCacheOf st0) url
            (fst (if ShouldPostProcess env config url
                  then PostProcessItems env config (PostProcessCache st0) pre url
                  else (pre, PostProcessCache st0)))
          = Inr (Items feed, ItemsCacheOf st')
      \<and> (\<not> ShouldPostProcess env config url \<and> effectiveCacheItems (Sources config) url pre \<le> 0
           \<longrightarrow> Items feed = pre \<and> subseq (Items feed) canonical
               \<and> subseq (map Link (Items feed)) (AllItemLinks feed))
      \<and> (\<not> ShouldPostProcess env config url \<and> 0 < effectiveCacheItems (Sources config) url pre
           \<longrightarrow> (\<exists>kept backfill.
                  Items feed = kept @ backfill
                \<and> length (Items feed) \<le> nat (effectiveCacheItems (Sources config) url pre)
                \<and> subseq kept canonical
                \<and> set backfill \<subseteq> set (case ItemsCacheOf st0 url of None \<Rightarrow> [] | Some c \<Rightarrow> c)
                \<and> Link ` set backfill \<inter> Link ` set kept = {}))"
  proof (rule exI[of _ config], rule exI[of _ allItems], rule exI[of _ canonical],
      rule exI[of _ pre], rule exI[of _ feed], intro conjI)
    show "config = adoptFeedTitle (RssUrls st0) url (GFeedTitle result)" by (rule config_def)
    show "map Link allItems = map GLink (capItems (GetMaxItems (Sources (RssUrls st0)) url) (GItems result))"
      by (rule links)
    show "canonical = SliceStable itemLess allItems" by (rule canonical_def)
    show "mset canonical = mset allItems" unfolding canonical_def by (rule mset_SliceStable)
    show "sorted_wrt itemLeq canonical" unfolding canonical_def by (rule sorted_SliceStable)
    show "subseq pre canonical" by (rule sp)
    show "DbMap st' url = Some feed" by (rule pub(1))
    show "AllItemLinks feed = map Link canonical" by (rule pub(2))
    show "AllItemTitles feed = map Title canonical" by (rule pub(3))
    show "cacheMergeStep (Sources config) (ItemsCacheOf st0) url
            (fst (if ShouldPostProcess env config url
                  then PostProcessItems env config (PostProcessCache st0) pre url
                  else (pre, PostProcessCache st0)))
          = Inr (Items feed, ItemsCacheOf st')" by (rule mg)
    show "\<not> ShouldPostProcess env config url \<and> effectiveCacheItems (Sources config) url pre \<le> 0
           \<longrightarrow> Items feed = pre \<and> subseq (Items feed) canonical
               \<and> subseq (map Link (Items feed)) (AllItemLinks feed)"
      using off by blast
    show "\<not> ShouldPostProcess env config url \<and> 0 < effectiveCacheItems (Sources config) url pre
           \<longrightarrow> (\<exists>kept backfill.
                  Items feed = kept @ backfill
                \<and> length (Items feed) \<le> nat (effectiveCacheItems (Sources config) url pre)
                \<and> subseq kept canonical
                \<and> set backfill \<subseteq> set (case ItemsCacheOf st0 url of None \<Rightarrow> [] | Some c \<Rightarrow> c)
                \<and> Link ` set backfill \<inter> Link ` set kept = {})"
      using on by blast
  qed
qed

text \<open>
  Claim C1 as stated extends to the items stored after the cache merge. The merge
  backfills with previously retained items, which need not be in the current feed: with
  the feed \<open>[A]\<close>, a retained item \<open>B\<close> and a cap of 2 the snapshot stores \<open>[A, B]\<close> while
  its full list is \<open>[A]\<close>.
\<close>

theorem backfilled_item_not_in_full_list_counterexample:
  "UpdateFeedWithOptions
     (exampleEnv \<lparr>GFeedTitle = ''T'', GItems = [feedItem ''A'' ''a'' (Some ''2020'')], ImageURL = None\<rparr>)
     10 ''u'' ''t1'' False False
     (stateWith (configWith [sourceWith ''u'' ''N'' None 2 False] (aiConfigWith False 0 0))
        Map.empty [''u'' \<mapsto> [itemWith ''B'' ''b'' []]] Map.empty)
   = Inr (None,
       stateWith (configWith [sourceWith ''u'' ''N'' None 2 False] (aiConfigWith False 0 0))
         [''u'' \<mapsto> (snapshotWith ''u'' ''t1''
                      [fullItem ''A'' ''a'' ''2020'' ''t1'' 0, itemWith ''B'' ''b'' []]
                      [''a''] [''A''])\<lparr>FilteredCount := - 1\<rparr>]
         [''u'' \<mapsto> [cachedItemToSave (fullItem ''A'' ''a'' ''2020'' ''t1'' 0), itemWith ''B'' ''b'' []]]
         Map.empty)
   \<and> \<not> subseq
         (map Link (Items (snapshotWith ''u'' ''t1''
                      [fullItem ''A'' ''a'' ''2020'' ''t1'' 0, itemWith ''B'' ''b'' []] [''a''] [''A''])))
         (AllItemLinks (snapshotWith ''u'' ''t1''
                      [fullItem ''A'' ''a'' ''2020'' ''t1'' 0, itemWith ''B'' ''b'' []] [''a''] [''A'']))"
  by (simp add: update_eval_defs fullItem_def itemWith_def mergeWithCachedItems_def
      SetItemsCache_def cachedItemToSave_def)

theorem filtered_subsequence_of_canonical_witness:
  "UpdateFeedWithOptions
     (exampleEnv \<lparr>GFeedTitle = ''T'',
                  GItems = [feedItem ''good'' ''a'' (Some ''2020''), feedItem ''ad here'' ''b'' (Some ''2022''),
                            feedItem ''news'' ''c'' (Some ''2021'')],
                  ImageURL = None\<rparr>)
     10 ''u'' ''t1'' False False
     (stateWith (configWith [sourceWith ''u'' ''N'' (Some (strategyWith [''ad''] [] [])) (- 1) False]
                            (aiConfigWith False 0 0))
        Map.empty Map.empty Map.empty)
   = Inr (None,
       stateWith (configWith [sourceWith ''u'' ''N'' (Some (strategyWith [''ad''] [] [])) (- 1) False]
                             (aiConfigWith False 0 0))
         [''u'' \<mapsto> (snapshotWith ''u'' ''t1''
                      [fullItem ''news'' ''c'' ''2021'' ''t1'' 2, fullItem ''good'' ''a'' ''2020'' ''t1'' 0]
                      [''b'', ''c'', ''a''] [''ad here'', ''news'', ''good''])\<lparr>FilteredCount := 1\<rparr>]
         Map.empty Map.empty)
   \<and> subseq
        (map Link (Items ((snapshotWith ''u'' ''t1''
                      [fullItem ''news'' ''c'' ''2021'' ''t1'' 2, fullItem ''good'' ''a'' ''2020'' ''t1'' 0]
                      [''b'', ''c'', ''a''] [''ad here'', ''news'', ''good''])\<lparr>FilteredCount := 1\<rparr>)))
        (AllItemLinks ((snapshotWith ''u'' ''t1''
                      [fullItem ''news'' ''c'' ''2021'' ''t1'' 2, fullItem ''good'' ''a'' ''2020'' ''t1'' 0]
                      [''b'', ''c'', ''a''] [''ad here'', ''news'', ''good''])\<lparr>FilteredCount := 1\<rparr>))"
proof -
  let ?f = "\<lparr>GFeedTitle = ''T'',
              GItems = [feedItem ''good'' ''a'' (Some ''2020''), feedItem ''ad here'' ''b'' (Some ''2022''),
                        feedItem ''news'' ''c'' (Some ''2021'')],
              ImageURL = None\<rparr>"
  let ?cfg = "configWith [sourceWith ''u'' ''N'' (Some (strategyWith [''ad''] [] [])) (- 1) False]
                (aiConfigWith False 0 0)"
  let ?s0 = "stateWith ?cfg Map.empty Map.empty Map.empty"
  let ?F = "(snapshotWith ''u'' ''t1''
              [fullItem ''news'' ''c'' ''2021'' ''t1'' 2, fullItem ''good'' ''a'' ''2020'' ''t1'' 0]
              [''b'', ''c'', ''a''] [''ad here'', ''news'', ''good''])\<lparr>FilteredCount := 1\<rparr>"
  let ?s1 = "stateWith ?cfg [''u'' \<mapsto> ?F] Map.empty Map.empty"
  have run: "UpdateFeedWithOptions (exampleEnv ?f) 10 ''u'' ''t1'' False False ?s0 = Inr (None, ?s1)"
    by (simp add: update_eval_defs fullItem_def ClassifyItems_def ShouldUseAI_def strategyWith_def
      availableCategories_def GetCategories_def IsKeywordEnabled_def IsWhitelistMode_def
      IsScriptFilterEnabled_def IsAIEnabled_def keywordCategory_def containsKeyword_def
      applyFiltersAndReturn_def copyCategories_def sublist_code)
  have p: "ParseURL (exampleEnv ?f) ''u'' = Inr ?f" by (simp add: exampleEnv_def)
  have fresh: "\<not> (DbMap ?s0 ''u'' \<noteq> None
         \<and> length (capItems (GetMaxItems (Sources (RssUrls ?s0)) ''u'') (GItems ?f)) > 0
         \<and> \<not> False
         \<and> \<not> isChanged (capItems (GetMaxItems (Sources (RssUrls ?s0)) ''u'') (GItems ?f))
                          (the (DbMap ?s0 ''u'')))"
    by (simp add: stateWith_def)
  have npp: "\<not> ShouldPostProcess (exampleEnv ?f) c ''u''" for c by (simp add: exampleEnv_def)
  have off: "effectiveCacheItems (Sources (adoptFeedTitle (RssUrls ?s0) ''u'' (GFeedTitle ?f))) ''u'' pre \<le> 0"
    for pre
    by (simp add: effectiveCacheItems_def adoptFeedTitle_def stateWith_def configWith_def sourceWith_def)
  have d: "DbMap ?s1 ''u'' = Some ?F" by (simp add: stateWith_def)
  from filtered_subsequence_of_canonical
      [of "exampleEnv ?f" "''u''" ?f ?s0 False 10 "''t1''" False None ?s1] p fresh run
  obtain feed where "DbMap ?s1 ''u'' = Some feed"
    "subseq (map Link (Items feed)) (AllItemLinks feed)"
    using npp off by blast
  with d run show ?thesis by simp
qed

section \<open>Properties of garbage collection\<close>

text \<open>What each sweep leaves at a link, as a function of the cache before it.\<close>

lemma cleanupClassifyCacheForSource_apply:
  "cleanupClassifyCacheForSource oldLinks newLinks cache link
     = (if link \<in> set oldLinks \<and> link \<notin> newLinks then None else cache link)"
  by (induction oldLinks arbitrary: cache) auto

lemma cleanupPostProcessCacheForSource_apply:
  "cleanupPostProcessCacheForSource oldLinks newLinks cache link
     = (if link \<in> set oldLinks \<and> link \<notin> newLinks then None else cache link)"
  by (induction oldLinks arbitrary: cache) auto

lemma cleanupClassifyCache_apply:
  "fst (cleanupClassifyCache validLinks cache) link = (if link \<in> validLinks then cache link else None)"
  by (auto simp: cleanupClassifyCache_def Let_def)

lemma cleanupPostProcessCache_apply:
  "fst (cleanupPostProcessCache validLinks cache) link = (if link \<in> validLinks then cache link else None)"
  by (auto simp: cleanupPostProcessCache_def Let_def)

lemma cleanupReadState_apply:
  "fst (cleanupReadState now validLinks readState) link
     = (case readState link of
          None \<Rightarrow> None
        | Some readAt \<Rightarrow> if link \<in> validLinks \<or> now - readAt < gracePeriod then Some readAt else None)"
  by (auto simp: cleanupReadState_def Let_def split: option.splits)

lemma sweepSource_caches:
  "ClassifyCacheOf (sweepSource env u newLinks oldLinks oldItemLinks newFiltered st) link
     = (if link \<in> set oldLinks \<and> link \<notin> currentLinksOf newLinks newFiltered oldItemLinks
        then None else ClassifyCacheOf st link)"
  "PostProcessCache (sweepSource env u newLinks oldLinks oldItemLinks newFiltered st) link
     = (if ShouldPostProcess env (RssUrls st) u \<and> link \<in> set oldLinks
           \<and> link \<notin> currentLinksOf newLinks newFiltered oldItemLinks
        then None else PostProcessCache st link)"
  by (auto simp: sweepSource_def Let_def cleanupClassifyCacheForSource_apply
      cleanupPostProcessCacheForSource_apply)

lemma cleanupPersistentData_caches:
  "ClassifyCacheOf (cleanupPersistentData now st) link
     = (if collectValidArticleLinks (DbMap st) (ItemsCacheOf st) = {} then ClassifyCacheOf st link
        else fst (cleanupClassifyCache (collectValidArticleLinks (DbMap st) (ItemsCacheOf st))
                    (ClassifyCacheOf st)) link)"
  "ReadState (cleanupPersistentData now st) link
     = (if collectValidArticleLinks (DbMap st) (ItemsCacheOf st) = {} then ReadState st link
        else fst (cleanupReadState now (collectValidArticleLinks (DbMap st) (ItemsCacheOf st))
                    (ReadState st)) link)"
  "PostProcessCache (cleanupPersistentData now st) link
     = (if collectValidArticleLinks (DbMap st) (ItemsCacheOf st) = {} then PostProcessCache st link
        else fst (cleanupPostProcessCache
                    (collectValidLinksWithPostProcess (RssUrls st) (DbMap st) (ItemsCacheOf st))
                    (PostProcessCache st)) link)"
  by (simp_all add: cleanupPersistentData_def Let_def)


lemma collectValidArticleLinks_snapshot:
  "dbMap k = Some feed \<Longrightarrow> l \<in> set (AllItemLinks feed) \<Longrightarrow> l \<in> collectValidArticleLinks dbMap ic"
  unfolding collectValidArticleLinks_def by (auto intro: ranI)

text \<open>
  Claim C4, with each sweep measured against the set of links it is given. A full sweep
  keeps every classification and read-state entry whose link is in the valid links
  collected from the live snapshots and the retained caches, and every post-process entry
  whose link is in the valid links of the sources with post-processing on; this holds for
  the periodic sweep \<^verbatim>\<open>cleanupPersistentData\<close> and for the sweeps run on a configuration
  reload. A read-state entry is also kept while less than the grace period of one day
  (86400 seconds) has passed since its read time, whether its link is valid or not. The
  per-source sweep of an update keeps every classification and post-process entry whose
  link is among the current links of that source: the new full list, the new kept items
  and the previously displayed links.
\<close>

theorem gc_keeps_valid_entries:
  "(link \<in> validLinks \<longrightarrow>
        fst (cleanupClassifyCache validLinks cache) link = cache link
      \<and> fst (cleanupPostProcessCache validLinks pp) link = pp link
      \<and> fst (cleanupReadState now validLinks rs) link = rs link)
   \<and> (rs link = Some readAt \<and> now - readAt < gracePeriod \<longrightarrow>
        fst (cleanupReadState now validLinks rs) link = rs link)
   \<and> gracePeriod = 86400
   \<and> (link \<in> collectValidArticleLinks (DbMap st) (ItemsCacheOf st) \<longrightarrow>
        ClassifyCacheOf (cleanupPersistentData now st) link = ClassifyCacheOf st link
      \<and> ReadState (cleanupPersistentData now st) link = ReadState st link
      \<and> ReadState (CleanupReadStateOnConfigChange now st) link = ReadState st link)
   \<and> (ReadState st link = Some readAt \<and> now - readAt < gracePeriod \<longrightarrow>
        ReadState (cleanupPersistentData now st) link = ReadState st link
      \<and> ReadState (CleanupReadStateOnConfigChange now st) link = ReadState st link)
   \<and> (link \<in> collectValidLinksWithPostProcess (RssUrls st) (DbMap st) (ItemsCacheOf st) \<longrightarrow>
        PostProcessCache (cleanupPersistentData now st) link = PostProcessCache st link
      \<and> PostProcessCache (CleanupPostProcessCacheOnConfigChange st) link = PostProcessCache st link)
   \<and> (link \<in> currentLinks \<longrightarrow>
        cleanupClassifyCacheForSource oldLinks currentLinks cache link = cache link
      \<and> cleanupPostProcessCacheForSource oldLinks currentLinks pp link = pp link)
   \<and> (link \<in> currentLinksOf newLinks newFilteredItems oldItemLinks \<longrightarrow>
        ClassifyCacheOf (sweepSource env u newLinks oldLinks oldItemLinks newFilteredItems st) link
          = ClassifyCacheOf st link
      \<and> PostProcessCache (sweepSource env u newLinks oldLinks oldItemLinks newFilteredItems st) link
          = PostProcessCache st link)"
proof (intro conjI impI)
  show "gracePeriod = 86400" by (simp add: gracePeriod_def)
next
  assume "link \<in> validLinks"
  then show "fst (cleanupClassifyCache validLinks cache) link = cache link"
    and "fst (cleanupPostProcessCache validLinks pp) link = pp link"
    and "fst (cleanupReadState now validLinks rs) link = rs link"
    by (simp_all add: cleanupClassifyCache_apply cleanupPostProcessCache_apply
        cleanupReadState_apply split: option.splits)
next
  assume "rs link = Some readAt \<and> now - readAt < gracePeriod"
  then show "fst (cleanupReadState now validLinks rs) link = rs link"
    by (simp add: cleanupReadState_apply)
next
  assume "link \<in> collectValidArticleLinks (DbMap st) (ItemsCacheOf st)"
  then show "ClassifyCacheOf (cleanupPersistentData now st) link = ClassifyCacheOf st link"
    and "ReadState (cleanupPersistentData now st) link = ReadState st link"
    and "ReadState (CleanupReadStateOnConfigChange now st) link = ReadState st link"
    by (simp_all add: cleanupPersistentData_caches CleanupReadStateOnConfigChange_def
        cleanupClassifyCache_apply cleanupReadState_apply split: option.splits)
next
  assume "ReadState st link = Some readAt \<and> now - readAt < gracePeriod"
  then show "ReadState (cleanupPersistentData now st) link = ReadState st link"
    and "ReadState (CleanupReadStateOnConfigChange now st) link = ReadState st link"
    by (simp_all add: cleanupPersistentData_caches CleanupReadStateOnConfigChange_def
        cleanupReadState_apply)
next
  assume "link \<in> collectValidLinksWithPostProcess (RssUrls st) (DbMap st) (ItemsCacheOf st)"
  then show "PostProcessCache (cleanupPersistentData now st) link = PostProcessCache st link"
    and "PostProcessCache (CleanupPostProcessCacheOnConfigChange st) link = PostProcessCache st link"
    by (simp_all add: cleanupPersistentData_caches CleanupPostProcessCacheOnConfigChange_def
        cleanupPostProcessCache_apply)
next
  assume "link \<in> currentLinks"
  then show "cleanupClassifyCacheForSource oldLinks currentLinks cache link = cache link"
    and "cleanupPostProcessCacheForSource oldLinks currentLinks pp link = pp link"
    by (simp_all add: cleanupClassifyCacheForSource_apply cleanupPostProcessCacheForSource_apply)
next
  assume "link \<in> currentLinksOf newLinks newFilteredItems oldItemLinks"
  then show "ClassifyCacheOf (sweepSource env u newLinks oldLinks oldItemLinks newFilteredItems st) link
          = ClassifyCacheOf st link"
    and "PostProcessCache (sweepSource env u newLinks oldLinks oldItemLinks newFilteredItems st) link
          = PostProcessCache st link"
    by (simp_all add: sweepSource_caches)
qed


theorem gc_keeps_valid_entries_witness:
  "''a'' \<in> {''a''}
   \<and> ReadState sweptState ''a'' = Some 100 \<and> (200::int) - 100 < gracePeriod
   \<and> ''a'' \<in> collectValidArticleLinks (DbMap sweptState) (ItemsCacheOf sweptState)
   \<and> ''a'' \<in> collectValidLinksWithPostProcess (RssUrls sweptState) (DbMap sweptState)
              (ItemsCacheOf sweptState)
   \<and> ''a'' \<in> currentLinksOf [''a''] [] []
   \<and> fst (cleanupClassifyCache {''a''} (ClassifyCacheOf sweptState)) ''a''
        = ClassifyCacheOf sweptState ''a''
   \<and> fst (cleanupPostProcessCache {''a''} (PostProcessCache sweptState)) ''a''
        = PostProcessCache sweptState ''a''
   \<and> fst (cleanupReadState 200 {''a''} (ReadState sweptState)) ''a'' = ReadState sweptState ''a''
   \<and> ClassifyCacheOf (cleanupPersistentData 200 sweptState) ''a'' = ClassifyCacheOf sweptState ''a''
   \<and> ReadState (cleanupPersistentData 200 sweptState) ''a'' = ReadState sweptState ''a''
   \<and> ReadState (CleanupReadStateOnConfigChange 200 sweptState) ''a'' = ReadState sweptState ''a''
   \<and> PostProcessCache (cleanupPersistentData 200 sweptState) ''a'' = PostProcessCache sweptState ''a''
   \<and> PostProcessCache (CleanupPostProcessCacheOnConfigChange sweptState) ''a''
        = PostProcessCache sweptState ''a''
   \<and> cleanupClassifyCacheForSource [''a'', ''b''] (currentLinksOf [''a''] [] [])
        (ClassifyCacheOf sweptState) ''a'' = ClassifyCacheOf sweptState ''a''
   \<and> cleanupPostProcessCacheForSource [''a'', ''b''] (currentLinksOf [''a''] [] [])
        (PostProcessCache sweptState) ''a'' = PostProcessCache sweptState ''a''
   \<and> ClassifyCacheOf (sweepSource (exampleEnv \<lparr>GFeedTitle = ''T'', GItems = [], ImageURL = None\<rparr>)
                         ''u'' [''a''] [''a'', ''b''] [] [] sweptState) ''a''
        = ClassifyCacheOf sweptState ''a''
   \<and> ClassifyCacheOf sweptState ''a'' = Some ''tech''"
proof -
  have h1: "''a'' \<in> {''a''}" by simp
  have h2: "ReadState sweptState ''a'' = Some 100 \<and> (200::int) - 100 < gracePeriod"
    by (simp add: sweptState_def gracePeriod_def)
  have h3: "''a'' \<in> collectValidArticleLinks (DbMap sweptState) (ItemsCacheOf sweptState)"
    by (simp add: sweptState_def stateWith_def collectValidArticleLinks_def snapshotWith_def)
  have h4: "''a'' \<in> collectValidLinksWithPostProcess (RssUrls sweptState) (DbMap sweptState)
              (ItemsCacheOf sweptState)"
    by (simp add: sweptState_def stateWith_def collectValidLinksWithPostProcess_def
        postProcessEnabledUrls_def postProcessedSource_def configWith_def sourceWith_def
        snapshotWith_def)
  have h5: "''a'' \<in> currentLinksOf [''a''] [] []" by (simp add: currentLinksOf_def)
  have h6: "ClassifyCacheOf sweptState ''a'' = Some ''tech''"
    by (simp add: sweptState_def stateWith_def)
  from gc_keeps_valid_entries
    [where link = "''a''" and validLinks = "{''a''}" and cache = "ClassifyCacheOf sweptState"
       and pp = "PostProcessCache sweptState" and rs = "ReadState sweptState" and now = 200
       and readAt = 100 and st = sweptState and currentLinks = "currentLinksOf [''a''] [] []"
       and oldLinks = "[''a'', ''b'']" and newLinks = "[''a'']" and newFilteredItems = "[]"
       and oldItemLinks = "[]" and u = "''u''"
       and env = "exampleEnv \<lparr>GFeedTitle = ''T'', GItems = [], ImageURL = None\<rparr>"]
    h1 h2 h3 h4 h5 h6
  show ?thesis by blast
qed

text \<open>
  Claim C4 as stated covers the per-source sweep of an update. That sweep keeps only the
  links of the source being updated. Here the link \<open>x\<close> is listed by the snapshots of two
  sources; the source \<open>u\<close> had filtered the item out, and its feed no longer has it. The
  update of \<open>u\<close> deletes the classification of \<open>x\<close>, although \<open>x\<close> is in the valid links
  before and after the update, through the snapshot of \<open>v\<close>.
\<close>

theorem per_source_sweep_deletes_valid_link_counterexample:
  "\<exists>st'.
     UpdateFeedWithOptions
       (exampleEnv \<lparr>GFeedTitle = ''T'', GItems = [feedItem ''news'' ''y'' (Some ''2021'')],
                    ImageURL = None\<rparr>)
       10 ''u'' ''t2'' False False
       (stateWith (configWith [sourceWith ''u'' ''N'' (Some (strategyWith [''ad''] [] [])) (- 1) False,
                               sourceWith ''v'' ''V'' None (- 1) False]
                              (aiConfigWith False 0 0))
          [''u'' \<mapsto> (snapshotWith ''u'' ''t1'' [] [''x''] [''ad x''])\<lparr>FilteredCount := 1\<rparr>,
           ''v'' \<mapsto> snapshotWith ''v'' ''t1'' [fullItem ''ad x'' ''x'' ''2020'' ''t1'' 0] [''x''] [''ad x'']]
          Map.empty [''x'' \<mapsto> ''tech''])
     = Inr (None, st')
     \<and> DbMap st' ''u'' = Some ((snapshotWith ''u'' ''t2'' [fullItem ''news'' ''y'' ''2021'' ''t2'' 0]
                                 [''y''] [''news''])\<lparr>FilteredCount := 0\<rparr>)
     \<and> DbMap st' ''v''
         = Some (snapshotWith ''v'' ''t1'' [fullItem ''ad x'' ''x'' ''2020'' ''t1'' 0] [''x''] [''ad x''])
     \<and> ''x'' \<in> collectValidArticleLinks
                 [''u'' \<mapsto> (snapshotWith ''u'' ''t1'' [] [''x''] [''ad x''])\<lparr>FilteredCount := 1\<rparr>,
                  ''v'' \<mapsto> snapshotWith ''v'' ''t1'' [fullItem ''ad x'' ''x'' ''2020'' ''t1'' 0] [''x''] [''ad x'']]
                 Map.empty
     \<and> ''x'' \<in> collectValidArticleLinks (DbMap st') (ItemsCacheOf st')
     \<and> ClassifyCacheOf st' ''x'' = None"
proof -
  let ?f = "\<lparr>GFeedTitle = ''T'', GItems = [feedItem ''news'' ''y'' (Some ''2021'')], ImageURL = None\<rparr>"
  let ?cfg = "configWith [sourceWith ''u'' ''N'' (Some (strategyWith [''ad''] [] [])) (- 1) False,
                               sourceWith ''v'' ''V'' None (- 1) False]
                              (aiConfigWith False 0 0)"
  let ?V = "snapshotWith ''v'' ''t1'' [fullItem ''ad x'' ''x'' ''2020'' ''t1'' 0] [''x''] [''ad x'']"
  let ?U = "(snapshotWith ''u'' ''t1'' [] [''x''] [''ad x''])\<lparr>FilteredCount := 1\<rparr>"
  let ?U' = "(snapshotWith ''u'' ''t2'' [fullItem ''news'' ''y'' ''2021'' ''t2'' 0]
                                 [''y''] [''news''])\<lparr>FilteredCount := 0\<rparr>"
  let ?s1 = "stateWith ?cfg [''u'' \<mapsto> ?U, ''v'' \<mapsto> ?V, ''u'' \<mapsto> ?U'] Map.empty
               ([''x'' \<mapsto> ''tech''](''x'' := None))"
  have run: "UpdateFeedWithOptions (exampleEnv ?f) 10 ''u'' ''t2'' False False
               (stateWith ?cfg [''u'' \<mapsto> ?U, ''v'' \<mapsto> ?V] Map.empty [''x'' \<mapsto> ''tech''])
             = Inr (None, ?s1)"
    by (simp add: update_eval_defs fullItem_def ClassifyItems_def ShouldUseAI_def strategyWith_def
      availableCategories_def GetCategories_def IsKeywordEnabled_def IsWhitelistMode_def
      IsScriptFilterEnabled_def IsAIEnabled_def keywordCategory_def containsKeyword_def
      applyFiltersAndReturn_def copyCategories_def sublist_code)
  have v0: "''x'' \<in> collectValidArticleLinks [''u'' \<mapsto> ?U, ''v'' \<mapsto> ?V] Map.empty"
    by (rule collectValidArticleLinks_snapshot[of _ "''v''" ?V]) (simp_all add: snapshotWith_def)
  have v1: "''x'' \<in> collectValidArticleLinks (DbMap ?s1) (ItemsCacheOf ?s1)"
    by (rule collectValidArticleLinks_snapshot[of _ "''v''" ?V])
       (simp_all add: snapshotWith_def stateWith_def)
  have c: "ClassifyCacheOf ?s1 ''x'' = None" by (simp add: stateWith_def)
  have du: "DbMap ?s1 ''u'' = Some ?U'" and dv: "DbMap ?s1 ''v'' = Some ?V"
    by (simp_all add: stateWith_def)
  show ?thesis
    by (rule exI[of _ ?s1]) (use run v0 v1 c du dv in blast)
qed

end
